theory Spec2Isabelle
  imports Complex_Main "HOL-Library.Word"
begin

unbundle bit_operations_syntax


section \<open>JavaScript values used by the audio code\<close>

text \<open>
  The components \<open>TtsTool\<close> and \<open>AiTtsPreview\<close> convert between raw little-endian
  16-bit PCM bytes and Web Audio buffers of floating-point samples.

  A byte is an 8-bit word. A JavaScript number is either a finite value or \<open>NaN\<close>
  (what arithmetic on \<open>undefined\<close> gives). Finite values are modelled as rationals:
  the audio code only divides 16-bit integers by \<open>32768\<close> (exact in a Float32Array)
  and multiplies Float32 samples by \<open>32768\<close> or \<open>32767\<close> (exact in a double, 24 + 15
  bits of mantissa), so on every finite sample the rational arithmetic below is the
  IEEE arithmetic of the source. Infinite samples are not modelled.
\<close>

type_synonym byte = "8 word"

datatype number = Num rat | NaN

datatype js_error = RangeError | NotSupportedError | InvalidStateError

text \<open>Truncation towards zero, the first step of every integer conversion.\<close>

definition js_trunc :: "rat \<Rightarrow> int" where
  "js_trunc x = (if x < 0 then - \<lfloor>- x\<rfloor> else \<lfloor>x\<rfloor>)"

text \<open>\<open>ToInt16\<close>, applied by \<open>DataView.setInt16\<close>: \<open>NaN\<close> becomes 0, a finite value
  is truncated and taken modulo \<open>2^16\<close>.\<close>

fun ToInt16 :: "number \<Rightarrow> 16 word" where
  "ToInt16 NaN = 0"
| "ToInt16 (Num x) = word_of_int (js_trunc x)"

text \<open>The conversion of a non-negative number to a Web IDL \<open>unsigned long\<close>
  (the \<open>length\<close> argument of \<open>createBuffer\<close>): the fraction is dropped and the
  integer taken modulo \<open>2^32\<close>.\<close>

definition ToUint32 :: "rat \<Rightarrow> nat" where
  "ToUint32 x = nat (js_trunc x mod 2 ^ 32)"

subsection \<open>Typed arrays and DataView\<close>

text \<open>\<open>new Int16Array(data.buffer)\<close>: a view of the bytes as 16-bit signed integers,
  low byte first. The constructor throws a RangeError when the byte length is odd.\<close>

fun int16_pairs :: "byte list \<Rightarrow> 16 word list" where
  "int16_pairs (lo # hi # bs) = word_cat hi lo # int16_pairs bs"
| "int16_pairs bs = []"

definition Int16Array :: "byte list \<Rightarrow> js_error + 16 word list" where
  "Int16Array data = (if odd (length data) then Inl RangeError else Inr (int16_pairs data))"

text \<open>\<open>dataInt16[k] / 32768.0\<close>: reading past the end gives \<open>undefined\<close>, and the
  quotient is then \<open>NaN\<close>.\<close>

definition int16_div :: "16 word list \<Rightarrow> nat \<Rightarrow> number" where
  "int16_div dataInt16 k =
     (if k < length dataInt16 then Num (of_int (sint (dataInt16 ! k)) / 32768) else NaN)"

text \<open>\<open>channelData[i] = v\<close> on a Float32Array: a write past the end is ignored.\<close>

definition f32_set :: "number list \<Rightarrow> nat \<Rightarrow> number \<Rightarrow> number list" where
  "f32_set channelData i v = (if i < length channelData then channelData[i := v] else channelData)"

text \<open>\<open>channels[i][offset]\<close> on a Float32Array: \<open>undefined\<close> past the end, which
  \<open>Math.min\<close> turns into \<open>NaN\<close>.\<close>

definition f32_get :: "number list \<Rightarrow> nat \<Rightarrow> number" where
  "f32_get channelData i = (if i < length channelData then channelData ! i else NaN)"

text \<open>A DataView over an ArrayBuffer is the list of its bytes. Every setter throws a
  RangeError when the bytes it writes do not lie inside the buffer. Multi-byte setters
  are called with \<open>littleEndian = true\<close> throughout.\<close>

definition write_at :: "byte list \<Rightarrow> nat \<Rightarrow> byte list \<Rightarrow> js_error + byte list" where
  "write_at view pos bs =
     (if pos + length bs \<le> length view
      then Inr (take pos view @ bs @ drop (pos + length bs) view)
      else Inl RangeError)"

definition le16 :: "16 word \<Rightarrow> byte list" where
  "le16 w = [ucast w, ucast (drop_bit 8 w)]"

definition le32 :: "32 word \<Rightarrow> byte list" where
  "le32 w = [ucast w, ucast (drop_bit 8 w), ucast (drop_bit 16 w), ucast (drop_bit 24 w)]"

definition setUint8 :: "byte list \<Rightarrow> nat \<Rightarrow> nat \<Rightarrow> js_error + byte list" where
  "setUint8 view pos v = write_at view pos [word_of_nat v]"

definition setUint16 :: "byte list \<Rightarrow> nat \<Rightarrow> nat \<Rightarrow> js_error + byte list" where
  "setUint16 view pos v = write_at view pos (le16 (word_of_nat v))"

definition setUint32 :: "byte list \<Rightarrow> nat \<Rightarrow> nat \<Rightarrow> js_error + byte list" where
  "setUint32 view pos v = write_at view pos (le32 (word_of_nat v))"

definition setInt16 :: "byte list \<Rightarrow> nat \<Rightarrow> number \<Rightarrow> js_error + byte list" where
  "setInt16 view pos v = write_at view pos (le16 (ToInt16 v))"

section \<open>Audio buffers and \<open>decodeAudioData\<close>\<close>

text \<open>An \<open>AudioBuffer\<close>: its sample rate, its length in sample frames and one
  Float32Array per channel. \<open>numberOfChannels\<close> is the number of channel arrays.\<close>

record AudioBuffer =
  sampleRate :: nat
  buf_length :: nat
  getChannelData :: "number list list"

definition numberOfChannels :: "AudioBuffer \<Rightarrow> nat" where
  "numberOfChannels b = length (getChannelData b)"

text \<open>The channel counts and sample rates for which the platform creates a buffer.
  The limits are the browser's own: the values below are Chromium's, and Web Audio
  requires every browser to accept at least 1 to 32 channels and 8000 to 96000 Hz.\<close>

definition MAX_CHANNELS :: nat where
  "MAX_CHANNELS = 32"

definition MIN_SAMPLE_RATE :: nat where
  "MIN_SAMPLE_RATE = 3000"

definition MAX_SAMPLE_RATE :: nat where
  "MAX_SAMPLE_RATE = 768000"

definition supported_format :: "nat \<Rightarrow> nat \<Rightarrow> bool" where
  "supported_format nch rate =
     (0 < nch \<and> nch \<le> MAX_CHANNELS \<and> MIN_SAMPLE_RATE \<le> rate \<and> rate \<le> MAX_SAMPLE_RATE)"

text \<open>What every buffer handed out by the platform satisfies: a channel count and a
  sample rate the platform supports, at least one frame, a length that is an unsigned
  long, and every channel array of the buffer's length.\<close>

definition audio_buffer_ok :: "AudioBuffer \<Rightarrow> bool" where
  "audio_buffer_ok b =
     (supported_format (length (getChannelData b)) (sampleRate b) \<and>
      0 < buf_length b \<and> buf_length b < 2 ^ 32 \<and>
      list_all (\<lambda>ch. length ch = buf_length b) (getChannelData b))"

text \<open>\<open>ctx.createBuffer(numberOfChannels, length, sampleRate)\<close>. Web Audio throws
  NotSupportedError when the channel count or the sample rate is outside the supported
  range, or when the length is zero; the length is first converted to an unsigned
  long. The new buffer is silent. A failure to allocate the buffer is not modelled.\<close>

definition createBuffer :: "nat \<Rightarrow> rat \<Rightarrow> nat \<Rightarrow> js_error + AudioBuffer" where
  "createBuffer nch len rate =
     (if supported_format nch rate \<and> 0 < ToUint32 len
      then Inr \<lparr>sampleRate = rate, buf_length = ToUint32 len,
                getChannelData = replicate nch (replicate (ToUint32 len) (Num 0))\<rparr>
      else Inl NotSupportedError)"

text \<open>The inner loop of \<open>decodeAudioData\<close>,
  \<^verbatim>\<open>for (let i = 0; i < frameCount; i++)
     channelData[i] = dataInt16[i * numChannels + channel] / 32768.0;\<close>
  where \<open>frameCount\<close> is a quotient and need not be an integer.\<close>

function decode_channel ::
  "16 word list \<Rightarrow> nat \<Rightarrow> nat \<Rightarrow> rat \<Rightarrow> nat \<Rightarrow> number list \<Rightarrow> number list" where
  "decode_channel dataInt16 numChannels channel frameCount i channelData =
     (if of_nat i < frameCount
      then decode_channel dataInt16 numChannels channel frameCount (Suc i)
             (f32_set channelData i (int16_div dataInt16 (i * numChannels + channel)))
      else channelData)"
  by pat_completeness auto
termination
proof (relation "measure (\<lambda>(d, n, c, fc, i, cd). nat \<lceil>fc\<rceil> - i)")
  show "wf (measure (\<lambda>(d, n, c, fc, i, cd). nat \<lceil>fc\<rceil> - i))"
    by simp
next
  fix dataInt16 :: "16 word list" and numChannels channel :: nat and frameCount :: rat
    and i :: nat and channelData :: "number list"
  assume less: "of_nat i < frameCount"
  have "of_int (int i) < frameCount"
    using less by simp
  then have "int i < \<lceil>frameCount\<rceil>"
    by (simp only: less_ceiling_iff)
  then show "((dataInt16, numChannels, channel, frameCount, Suc i,
               f32_set channelData i (int16_div dataInt16 (i * numChannels + channel))),
              (dataInt16, numChannels, channel, frameCount, i, channelData))
             \<in> measure (\<lambda>(d, n, c, fc, i, cd). nat \<lceil>fc\<rceil> - i)"
    by simp
qed

declare decode_channel.simps [simp del]

text \<open>The outer loop, over the channels of the new buffer.\<close>

definition decode_channels :: "16 word list \<Rightarrow> nat \<Rightarrow> rat \<Rightarrow> AudioBuffer \<Rightarrow> AudioBuffer" where
  "decode_channels dataInt16 numChannels frameCount buffer =
     buffer\<lparr>getChannelData :=
       map (\<lambda>channel. decode_channel dataInt16 numChannels channel frameCount 0
                        (getChannelData buffer ! channel))
           [0..<numChannels]\<rparr>"

text \<open>\<open>decodeAudioData(data, ctx, sampleRate, numChannels)\<close>. With
  \<open>numChannels = 0\<close> the quotient \<open>frameCount\<close> is \<open>Infinity\<close> or \<open>NaN\<close> and
  \<open>createBuffer\<close> rejects the zero channel count.\<close>

definition decodeAudioData :: "byte list \<Rightarrow> nat \<Rightarrow> nat \<Rightarrow> js_error + AudioBuffer" where
  "decodeAudioData data rate numChannels =
     (case Int16Array data of
        Inl e \<Rightarrow> Inl e
      | Inr dataInt16 \<Rightarrow>
          if numChannels = 0 then Inl NotSupportedError
          else
            let frameCount = of_nat (length dataInt16) / of_nat numChannels in
            (case createBuffer numChannels frameCount rate of
               Inl e \<Rightarrow> Inl e
             | Inr buffer \<Rightarrow> Inr (decode_channels dataInt16 numChannels frameCount buffer)))"

section \<open>\<open>createWavFile\<close>\<close>

text \<open>The header is written field by field at a running position \<open>pos\<close>; each step
  below writes at \<open>pos\<close> and advances it, as in
  \<^verbatim>\<open>view.setUint32(pos, length - 8, true); pos += 4;\<close>\<close>

type_synonym cursor = "byte list \<times> nat"

fun writeString :: "byte list \<Rightarrow> nat \<Rightarrow> string \<Rightarrow> js_error + byte list" where
  "writeString view offset [] = Inr view"
| "writeString view offset (c # cs) =
     (case setUint8 view offset (of_char c) of
        Inl e \<Rightarrow> Inl e
      | Inr view' \<Rightarrow> writeString view' (Suc offset) cs)"

definition put_string :: "string \<Rightarrow> cursor \<Rightarrow> js_error + cursor" where
  "put_string s = (\<lambda>(view, pos).
     case writeString view pos s of Inl e \<Rightarrow> Inl e | Inr view' \<Rightarrow> Inr (view', pos + 4))"

definition put_u32 :: "nat \<Rightarrow> cursor \<Rightarrow> js_error + cursor" where
  "put_u32 v = (\<lambda>(view, pos).
     case setUint32 view pos v of Inl e \<Rightarrow> Inl e | Inr view' \<Rightarrow> Inr (view', pos + 4))"

definition put_u16 :: "nat \<Rightarrow> cursor \<Rightarrow> js_error + cursor" where
  "put_u16 v = (\<lambda>(view, pos).
     case setUint16 view pos v of Inl e \<Rightarrow> Inl e | Inr view' \<Rightarrow> Inr (view', pos + 2))"

fun run_writes :: "(cursor \<Rightarrow> js_error + cursor) list \<Rightarrow> cursor \<Rightarrow> js_error + cursor" where
  "run_writes [] c = Inr c"
| "run_writes (w # ws) c = (case w c of Inl e \<Rightarrow> Inl e | Inr c' \<Rightarrow> run_writes ws c')"

text \<open>The header of \<open>createWavFile\<close>, lines 63 to 75 of the component.\<close>

definition write_header :: "AudioBuffer \<Rightarrow> nat \<Rightarrow> cursor \<Rightarrow> js_error + cursor" where
  "write_header audioBuffer len =
     run_writes
       [put_string ''RIFF'',
        put_u32 (len - 8),
        put_string ''WAVE'',
        put_string ''fmt '',
        put_u32 16,
        put_u16 1,
        put_u16 (numberOfChannels audioBuffer),
        put_u32 (sampleRate audioBuffer),
        put_u32 (sampleRate audioBuffer * numberOfChannels audioBuffer * 2),
        put_u16 (numberOfChannels audioBuffer * 2),
        put_u16 16,
        put_string ''data'',
        (\<lambda>(view, pos). put_u32 (len - pos - 4) (view, pos))]"

text \<open>One sample:
  \<^verbatim>\<open>let sample = Math.max(-1, Math.min(1, channels[i][offset]));
  sample = sample < 0 ? sample * 0x8000 : sample * 0x7FFF;\<close>
  \<open>NaN\<close> passes through both lines.\<close>

fun clamp_sample :: "number \<Rightarrow> number" where
  "clamp_sample NaN = NaN"
| "clamp_sample (Num x) = Num (max (- 1) (min 1 x))"

fun scale_sample :: "number \<Rightarrow> number" where
  "scale_sample NaN = NaN"
| "scale_sample (Num x) = (if x < 0 then Num (x * 32768) else Num (x * 32767))"

text \<open>The \<open>for\<close> loop over the channels of one frame: two bytes per channel.\<close>

fun write_frame :: "number list list \<Rightarrow> nat \<Rightarrow> cursor \<Rightarrow> js_error + cursor" where
  "write_frame [] offset c = Inr c"
| "write_frame (ch # chs) offset (view, pos) =
     (case setInt16 view pos (scale_sample (clamp_sample (f32_get ch offset))) of
        Inl e \<Rightarrow> Inl e
      | Inr view' \<Rightarrow> write_frame chs offset (view', pos + 2))"

text \<open>The \<open>while (pos < length)\<close> loop. It does not advance for a buffer without
  channels, so its result is optional: \<open>None\<close> stands for a loop that never ends.\<close>

partial_function (option) sample_loop ::
  "number list list \<Rightarrow> nat \<Rightarrow> cursor \<times> nat \<Rightarrow> (js_error + byte list) option" where
  "sample_loop channels len s =
     (case s of (c, offset) \<Rightarrow>
        if snd c < len
        then (case write_frame channels offset c of
                Inl e \<Rightarrow> Some (Inl e)
              | Inr c' \<Rightarrow> sample_loop channels len (c', Suc offset))
        else Some (Inr (fst c)))"

text \<open>\<open>createWavFile(audioBuffer)\<close>: the bytes of the Blob it returns. The new
  ArrayBuffer is zero-filled; a failure to allocate it is not modelled.\<close>

definition createWavFile :: "AudioBuffer \<Rightarrow> (js_error + byte list) option" where
  "createWavFile audioBuffer =
     (let len = buf_length audioBuffer * numberOfChannels audioBuffer * 2 + 44;
          view = replicate len 0;
          channels = getChannelData audioBuffer
      in case write_header audioBuffer len (view, 0) of
           Inl e \<Rightarrow> Some (Inl e)
         | Inr c \<Rightarrow> sample_loop channels len (c, 0))"

section \<open>The byte layout and the sample mapping, as the specification words them\<close>

text \<open>The definitions of this section are not translations of source functions. They
  describe results: the header and the sample mapping in the words of the
  specification, a reader of little-endian fields, and the data the loops above are
  compared with.\<close>

subsection \<open>Little-endian fields and the 44-byte header\<close>

definition ascii :: "string \<Rightarrow> byte list" where
  "ascii s = map (\<lambda>c. word_of_nat (of_char c)) s"

text \<open>A field of two or four bytes holds its value modulo \<open>2^16\<close> or \<open>2^32\<close>, low
  byte first.\<close>

definition u16le :: "nat \<Rightarrow> byte list" where
  "u16le n = le16 (word_of_nat n)"

definition u32le :: "nat \<Rightarrow> byte list" where
  "u32le n = le32 (word_of_nat n)"

text \<open>The canonical header for \<open>nch\<close> channels, a sample rate and a frame count:
  RIFF, total size minus 8, WAVE, the \<open>fmt\<close> chunk (size 16, PCM code 1, channels,
  sample rate, byte rate, block align, 16 bits per sample) and the \<open>data\<close> chunk size.\<close>

definition wav_header :: "nat \<Rightarrow> nat \<Rightarrow> nat \<Rightarrow> byte list" where
  "wav_header nch rate frames =
     ascii ''RIFF'' @ u32le (44 + frames * nch * 2 - 8) @ ascii ''WAVE'' @
     ascii ''fmt '' @ u32le 16 @ u16le 1 @ u16le nch @ u32le rate @
     u32le (rate * nch * 2) @ u16le (nch * 2) @ u16le 16 @
     ascii ''data'' @ u32le (frames * nch * 2)"

text \<open>A reader of little-endian fields: the value of a byte sequence, low byte first,
  and the two field widths of a WAV header, read at a byte offset.\<close>

fun le_value :: "byte list \<Rightarrow> nat" where
  "le_value [] = 0"
| "le_value (b # bs) = unat b + 256 * le_value bs"

definition read_u16 :: "byte list \<Rightarrow> nat \<Rightarrow> nat" where
  "read_u16 bytes pos = le_value (take 2 (drop pos bytes))"

definition read_u32 :: "byte list \<Rightarrow> nat \<Rightarrow> nat" where
  "read_u32 bytes pos = le_value (take 4 (drop pos bytes))"

text \<open>A signed 16-bit field: two's complement of the unsigned value.\<close>

definition read_s16 :: "byte list \<Rightarrow> nat \<Rightarrow> int" where
  "read_s16 bytes pos =
     (if read_u16 bytes pos < 32768 then int (read_u16 bytes pos)
      else int (read_u16 bytes pos) - 65536)"

subsection \<open>Samples\<close>

text \<open>Encoding one sample: clamp to \<open>[-1, 1]\<close>, scale negative values by 32768 and
  the others by 32767, truncate towards zero. Neither function uses a definition of the
  encoder above.\<close>

definition truncate_towards_zero :: "rat \<Rightarrow> int" where
  "truncate_towards_zero x = (if 0 \<le> x then \<lfloor>x\<rfloor> else \<lceil>x\<rceil>)"

definition encode_sample_spec :: "rat \<Rightarrow> int" where
  "encode_sample_spec v =
     (let c = (if v < - 1 then - 1 else if 1 < v then 1 else v)
      in truncate_towards_zero (if c < 0 then c * 32768 else c * 32767))"

text \<open>Decoding one sample: the signed 16-bit integer divided by 32768.\<close>

definition decode_sample_spec :: "16 word \<Rightarrow> number" where
  "decode_sample_spec s = Num (of_int (sint s) / 32768)"

text \<open>The 16-bit word \<open>createWavFile\<close> stores for a sample, and the interleaved PCM
  data of a buffer: frame after frame, inside a frame channel after channel, two bytes
  per sample.\<close>

definition pcm16 :: "number \<Rightarrow> 16 word" where
  "pcm16 v = ToInt16 (scale_sample (clamp_sample v))"

definition frame_words :: "number list list \<Rightarrow> nat \<Rightarrow> 16 word list" where
  "frame_words channels offset = map (\<lambda>ch. pcm16 (f32_get ch offset)) channels"

definition frame_bytes :: "number list list \<Rightarrow> nat \<Rightarrow> byte list" where
  "frame_bytes channels offset = concat (map le16 (frame_words channels offset))"

definition interleaved_pcm16 :: "AudioBuffer \<Rightarrow> byte list" where
  "interleaved_pcm16 b = concat (map (frame_bytes (getChannelData b)) [0..<buf_length b])"

text \<open>The channels of a decoded buffer: sample \<open>i\<close> of channel \<open>c\<close> is the
  integer at index \<open>i * numChannels + c\<close>.\<close>

definition decoded_channels :: "16 word list \<Rightarrow> nat \<Rightarrow> nat \<Rightarrow> number list list" where
  "decoded_channels dataInt16 numChannels frames =
     map (\<lambda>channel. map (\<lambda>i. int16_div dataInt16 (i * numChannels + channel)) [0..<frames])
       [0..<numChannels]"

subsection \<open>The round trip\<close>

text \<open>\<open>sampleBufferToBytes\<close> of the specification is the sample-writing loop of
  \<open>createWavFile\<close>: the bytes after the 44-byte header. The round trip decodes them
  again with the buffer's own sample rate and channel count.\<close>

definition sampleBufferToBytes :: "AudioBuffer \<Rightarrow> (js_error + byte list) option" where
  "sampleBufferToBytes b =
     (case createWavFile b of
        None \<Rightarrow> None
      | Some (Inl e) \<Rightarrow> Some (Inl e)
      | Some (Inr bytes) \<Rightarrow> Some (Inr (drop 44 bytes)))"

definition pcm16_round_trip :: "AudioBuffer \<Rightarrow> (js_error + AudioBuffer) option" where
  "pcm16_round_trip b =
     (case sampleBufferToBytes b of
        None \<Rightarrow> None
      | Some (Inl e) \<Rightarrow> Some (Inl e)
      | Some (Inr bytes) \<Rightarrow> Some (decodeAudioData bytes (sampleRate b) (numberOfChannels b)))"

text \<open>A sample quantized to 16 bits is \<open>k / 32768\<close> for an integer \<open>k\<close> from
  \<open>-32768\<close> to \<open>32767\<close>.\<close>

definition quantized16 :: "number \<Rightarrow> bool" where
  "quantized16 v =
     (case v of NaN \<Rightarrow> False
      | Num x \<Rightarrow> of_int \<lfloor>x * 32768\<rfloor> = x * 32768 \<and> - 1 \<le> x \<and> x < 1)"

definition buffer_quantized16 :: "AudioBuffer \<Rightarrow> bool" where
  "buffer_quantized16 b = list_all (list_all quantized16) (getChannelData b)"

text \<open>What one encode and decode does to a sample, and what it does to a quantized
  one: a positive sample comes back one step of \<open>1 / 32768\<close> lower.\<close>

definition requantize :: "number \<Rightarrow> number" where
  "requantize v = Num (of_int (sint (pcm16 v)) / 32768)"

fun lower_positive :: "number \<Rightarrow> number" where
  "lower_positive NaN = NaN"
| "lower_positive (Num x) = Num (if 0 < x then x - 1 / 32768 else x)"

fun nonpositive :: "number \<Rightarrow> bool" where
  "nonpositive NaN = False"
| "nonpositive (Num x) = (x \<le> 0)"

section \<open>Scripts and the word limit\<close>

text \<open>A JavaScript string is a list of UTF-16 code units. \<open>is_ws\<close> is the set that
  both \<open>String.prototype.trim\<close> and the regular expression class \<open>\s\<close> use: the
  ECMAScript white space and line terminator code points.\<close>

type_synonym jsstring = "nat list"

definition is_ws :: "nat \<Rightarrow> bool" where
  "is_ws c = (c \<in> {9, 10, 11, 12, 13, 32, 160, 5760, 8232, 8233, 8239, 8287, 12288, 65279}
              \<or> (8192 \<le> c \<and> c \<le> 8202))"

definition trim :: "jsstring \<Rightarrow> jsstring" where
  "trim s = rev (dropWhile is_ws (rev (dropWhile is_ws s)))"

text \<open>\<open>s.split(/\s+/)\<close>: the pieces between the maximal runs of white space. A run at
  the start or the end of the string leaves an empty piece there, and the empty string
  splits into one empty piece. \<open>piece\<close> is the piece read so far.\<close>

function split_ws_from :: "jsstring \<Rightarrow> jsstring \<Rightarrow> jsstring list" where
  "split_ws_from piece [] = [piece]"
| "split_ws_from piece (c # cs) =
     (if is_ws c then piece # split_ws_from [] (dropWhile is_ws cs)
      else split_ws_from (piece @ [c]) cs)"
  by pat_completeness auto
termination
proof (relation "measure (\<lambda>(piece, s). length s)")
  show "wf (measure (\<lambda>(piece, s). length s))"
    by simp
next
  fix piece :: jsstring and c :: nat and cs :: jsstring
  have "length (dropWhile is_ws cs) \<le> length cs"
    by (rule length_dropWhile_le)
  then show "(([], dropWhile is_ws cs), (piece, c # cs)) \<in> measure (\<lambda>(piece, s). length s)"
    by simp
next
  fix piece :: jsstring and c :: nat and cs :: jsstring
  show "((piece @ [c], cs), (piece, c # cs)) \<in> measure (\<lambda>(piece, s). length s)"
    by simp
qed

definition split_ws :: "jsstring \<Rightarrow> jsstring list" where
  "split_ws s = split_ws_from [] s"

text \<open>\<open>text.trim().split(/\s+/).filter(Boolean).length\<close>: the empty string is the only
  falsy piece.\<close>

definition wordCount :: "jsstring \<Rightarrow> nat" where
  "wordCount s = length (filter (\<lambda>piece. piece \<noteq> []) (split_ws (trim s)))"

definition MAX_WORDS :: nat where
  "MAX_WORDS = 20000"

section \<open>The state of the two components\<close>

text \<open>\<open>TtsTool\<close> and \<open>AiTtsPreview\<close> are React function components. Their state is
  the values of their \<open>useState\<close> hooks, the objects their refs point to, and the part
  of the platform they act on: the buffer source nodes they created, the state of the
  audio context, and the requests sent to a synthesis backend. \<open>calls\<close> logs the
  backend requests: \<open>generateContent\<close> of the network model, \<open>speak\<close> of the
  platform speech engine.

  A handler runs to completion between two renders. Inside one handler the state setters
  do not change what the handler reads, and no handler below reads a state value after
  setting it, so the setters are record updates. A closure keeps the values of the
  render that created it; where a function is called from an older closure, the value it
  reads from that closure is a parameter.\<close>

datatype TtsEngine = Gemini | System

datatype source_state = Unstarted | Playing | Stopped

datatype context_state = Running | Suspended | Closed

datatype backend_call =
    GenerateContent jsstring jsstring
  | Speak jsstring "jsstring option"

text \<open>What a handler is waiting for when it returns to the event loop.\<close>

datatype pending = Done | AwaitGenerateContent

record component =
  script_text :: jsstring
  selectedVoiceName :: jsstring
  isPlaying :: bool
  isLoading :: bool
  error :: "string option"
  hasApiKey :: bool
  env_API_KEY :: bool
  audioContextRef :: "context_state option"
  sourceNodeRef :: "nat option"
  sources :: "source_state list"
  calls :: "backend_call list"

record TtsTool = component +
  engine :: TtsEngine
  systemVoices :: "jsstring list"
  selectedSystemVoiceURI :: jsstring
  generatedAudio :: "AudioBuffer option"
  speechPending :: bool
  utteranceSupported :: bool

record AiTtsPreview = component +
  isMounted :: bool

text \<open>\<open>script_text\<close> is the \<open>text\<close> state of \<open>TtsTool\<close> and the \<open>text\<close> prop of
  \<open>AiTtsPreview\<close>; \<open>env_API_KEY\<close> says whether \<open>process.env.API_KEY\<close> is a non-empty
  string; \<open>sources\<close> holds every AudioBufferSourceNode created so far and
  \<open>sourceNodeRef\<close> the index of the one the ref points to; \<open>speechPending\<close> says
  whether \<open>window.speechSynthesis\<close> holds an utterance that is queued or being spoken;
  \<open>utteranceSupported\<close> says whether \<open>new SpeechSynthesisUtterance\<close> and \<open>speak\<close>
  succeed.\<close>

subsection \<open>Stopping a source\<close>

text \<open>\<open>AudioBufferSourceNode.stop()\<close> throws InvalidStateError on a node that was never
  started, and is harmless on one that has stopped or ended.\<close>

fun source_stop :: "source_state \<Rightarrow> js_error + source_state" where
  "source_stop Unstarted = Inl InvalidStateError"
| "source_stop Playing = Inr Stopped"
| "source_stop Stopped = Inr Stopped"

text \<open>The block shared by both \<open>stopAudio\<close> functions:
  \<^verbatim>\<open>if (sourceNodeRef.current) {
    try { sourceNodeRef.current.stop(); } catch (e) {}
    sourceNodeRef.current = null;
  }\<close>
  The ref only ever holds a node of \<open>sources\<close>; an index outside the list stands for
  no node.\<close>

definition stop_source :: "'a component_scheme \<Rightarrow> js_error + 'a component_scheme" where
  "stop_source st =
     (case sourceNodeRef st of
        None \<Rightarrow> Inr st
      | Some i \<Rightarrow>
          if i < length (sources st)
          then (case source_stop (sources st ! i) of
                  Inl e \<Rightarrow> Inr (st\<lparr>sourceNodeRef := None\<rparr>)
                | Inr s \<Rightarrow> Inr (st\<lparr>sources := (sources st)[i := s], sourceNodeRef := None\<rparr>))
          else Inr (st\<lparr>sourceNodeRef := None\<rparr>))"

section \<open>\<open>TtsTool\<close>\<close>

text \<open>\<open>stopAudio\<close> of \<open>TtsTool\<close>. It reads \<open>engine\<close> from its closure. With the
  system engine it calls \<open>window.speechSynthesis.cancel()\<close>, which empties the queue
  of the speech engine and does not throw; the object exists in every mounted
  \<open>TtsTool\<close>, whose mount effect has already called \<open>getVoices\<close> on it.\<close>

definition tts_stopAudio :: "TtsEngine \<Rightarrow> TtsTool \<Rightarrow> js_error + TtsTool" where
  "tts_stopAudio closure_engine st =
     (case (if closure_engine = Gemini then stop_source st
            else Inr (st\<lparr>speechPending := False\<rparr>)) of
        Inl e \<Rightarrow> Inl e
      | Inr st' \<Rightarrow> Inr (st'\<lparr>isPlaying := False\<rparr>))"

text \<open>The system branch of \<open>handleGenerate\<close>: the utterance is built and handed to
  \<open>speechSynthesis.speak\<close> inside a \<open>try\<close>; the \<open>catch\<close> sets the error, the
  \<open>finally\<close> clears the loading flag.\<close>

definition speak_system :: "TtsTool \<Rightarrow> TtsTool" where
  "speak_system st =
     (if utteranceSupported st
      then st\<lparr>calls := calls st @ [Speak (script_text st)
                          (find (\<lambda>v. v = selectedSystemVoiceURI st) (systemVoices st))],
               speechPending := True, isLoading := False\<rparr>
      else st\<lparr>error := Some ''Speech synthesis not supported on this browser.'',
               isLoading := False\<rparr>)"

text \<open>\<open>handleGenerate\<close> up to its first \<open>await\<close>. An exception that escapes the
  handler is the result \<open>Inl\<close>.\<close>

definition handleGenerate :: "TtsTool \<Rightarrow> js_error + TtsTool \<times> pending" where
  "handleGenerate st =
     (if trim (script_text st) = [] then Inr (st, Done)
      else if wordCount (script_text st) > MAX_WORDS
      then Inr (st\<lparr>error := Some ''max limit is 20k words''\<rparr>, Done)
      else
        (case tts_stopAudio (engine st)
                (st\<lparr>isLoading := True, error := None, generatedAudio := None\<rparr>) of
           Inl e \<Rightarrow> Inl e
         | Inr st1 \<Rightarrow>
             if engine st = System then Inr (speak_system st1, Done)
             else if \<not> env_API_KEY st \<and> \<not> hasApiKey st
             then Inr (st1\<lparr>error := Some ''API Key is missing. Please select one or use System Voice.'',
                          isLoading := False\<rparr>, Done)
             else Inr (st1\<lparr>calls := calls st1 @
                            [GenerateContent (script_text st) (selectedVoiceName st)]\<rparr>,
                       AwaitGenerateContent)))"

text \<open>\<open>playBuffer\<close>, called with the \<open>engine\<close> of its closure.\<close>

definition playBuffer :: "TtsEngine \<Rightarrow> AudioBuffer \<Rightarrow> TtsTool \<Rightarrow> js_error + TtsTool" where
  "playBuffer closure_engine buffer st =
     (if audioContextRef st = None then Inr st
      else
        (case tts_stopAudio closure_engine st of
           Inl e \<Rightarrow> Inl e
         | Inr st1 \<Rightarrow>
             Inr (st1\<lparr>sources := sources st1 @ [Playing],
                      sourceNodeRef := Some (length (sources st1)),
                      isPlaying := True\<rparr>)))"

text \<open>How the request of \<open>handleGenerate\<close> settles. With inline audio, \<open>atob\<close> either
  throws (with a message) or yields the bytes.\<close>

datatype response =
    InlineAudio "string + byte list"
  | TextOnly
  | NoContent
  | Rejected string

text \<open>The message of a platform exception is the browser's own text; the model uses the
  name of the error.\<close>

fun message_of :: "js_error \<Rightarrow> string" where
  "message_of RangeError = ''RangeError''"
| "message_of NotSupportedError = ''NotSupportedError''"
| "message_of InvalidStateError = ''InvalidStateError''"

text \<open>\<open>msg.includes(needle)\<close>.\<close>

fun starts_with :: "string \<Rightarrow> string \<Rightarrow> bool" where
  "starts_with s [] = True"
| "starts_with [] (c # cs) = False"
| "starts_with (x # xs) (c # cs) = (x = c \<and> starts_with xs cs)"

fun str_includes :: "string \<Rightarrow> string \<Rightarrow> bool" where
  "str_includes [] needle = (needle = [])"
| "str_includes (x # xs) needle = (starts_with (x # xs) needle \<or> str_includes xs needle)"

text \<open>The \<open>try\<close> block of \<open>handleGenerate\<close> after the request has settled: the state
  it leaves, and the message of the error it throws, if any. The block makes sure
  \<open>audioContextRef\<close> holds a running context, decodes the audio as one channel at
  24000 Hz, keeps the buffer and plays it. The continuation belongs to the render in which
  \<open>handleGenerate\<close> was called; of the component's state it only reads \<open>engine\<close>
  (through \<open>playBuffer\<close>), which was \<open>gemini\<close> in that render.\<close>

definition generate_try :: "response \<Rightarrow> TtsTool \<Rightarrow> TtsTool \<times> string option" where
  "generate_try r st =
     (case r of
        Rejected msg \<Rightarrow> (st, Some msg)
      | TextOnly \<Rightarrow>
          (st, Some ''API error: The prompt is too long or triggers a filter for audio output.'')
      | NoContent \<Rightarrow>
          (st, Some ''No audio data received. Try splitting your text into smaller parts.'')
      | InlineAudio payload \<Rightarrow>
          (let st1 = st\<lparr>audioContextRef := Some Running\<rparr> in
           case payload of
             Inl msg \<Rightarrow> (st1, Some msg)
           | Inr rawBytes \<Rightarrow>
               (case decodeAudioData rawBytes 24000 1 of
                  Inl e \<Rightarrow> (st1, Some (message_of e))
                | Inr audioBuffer \<Rightarrow>
                    (case playBuffer Gemini audioBuffer
                            (st1\<lparr>generatedAudio := Some audioBuffer\<rparr>) of
                       Inl e \<Rightarrow> (st1\<lparr>generatedAudio := Some audioBuffer\<rparr>, Some (message_of e))
                     | Inr st2 \<Rightarrow> (st2, None)))))"

text \<open>The \<open>catch\<close> and \<open>finally\<close> blocks.\<close>

definition generate_catch :: "string \<Rightarrow> string" where
  "generate_catch message =
     (let msg = (if message = [] then ''An unexpected error occurred.'' else message)
      in if str_includes msg ''not supported by the AudioOut model''
         then ''Script is too long for the AI engine. Use 'System Voice' for large texts.''
         else msg)"

definition handleGenerate_resume :: "response \<Rightarrow> TtsTool \<Rightarrow> TtsTool" where
  "handleGenerate_resume r st =
     (case generate_try r st of
        (st', None) \<Rightarrow> st'\<lparr>isLoading := False\<rparr>
      | (st', Some message) \<Rightarrow> st'\<lparr>error := Some (generate_catch message), isLoading := False\<rparr>)"

text \<open>The callback \<open>source.onended = () => setIsPlaying(false)\<close> that \<open>playBuffer\<close>
  installs on node \<open>i\<close>, run by the platform when the node has ended.\<close>

definition tts_source_onended :: "nat \<Rightarrow> TtsTool \<Rightarrow> TtsTool" where
  "tts_source_onended i st =
     st\<lparr>sources := (if i < length (sources st) then (sources st)[i := Stopped] else sources st),
        isPlaying := False\<rparr>"

subsection \<open>The buttons of \<open>TtsTool\<close>\<close>

text \<open>The Generate button: \<open>onClick={handleGenerate}\<close>, with
  \<^verbatim>\<open>disabled={isLoading || isPlaying || !text.trim() || wordCount > MAX_WORDS ||
            (engine === 'gemini' && !hasApiKey && !process.env.API_KEY)}\<close>
  A disabled button does not call its handler.\<close>

definition generate_disabled :: "TtsTool \<Rightarrow> bool" where
  "generate_disabled st =
     (isLoading st \<or> isPlaying st \<or> trim (script_text st) = [] \<or>
      wordCount (script_text st) > MAX_WORDS \<or>
      (engine st = Gemini \<and> \<not> hasApiKey st \<and> \<not> env_API_KEY st))"

definition click_generate :: "TtsTool \<Rightarrow> js_error + TtsTool \<times> pending" where
  "click_generate st = (if generate_disabled st then Inr (st, Done) else handleGenerate st)"

text \<open>The play and stop button of the player panel. The panel is rendered when
  \<open>generatedAudio || (engine === 'system' && isPlaying)\<close>, and the button runs
  \<^verbatim>\<open>isPlaying ? stopAudio()
            : (engine === 'gemini' ? playBuffer(generatedAudio!) : handleGenerate())\<close>\<close>

definition player_visible :: "TtsTool \<Rightarrow> bool" where
  "player_visible st = (generatedAudio st \<noteq> None \<or> (engine st = System \<and> isPlaying st))"

definition click_play_toggle :: "TtsTool \<Rightarrow> js_error + TtsTool \<times> pending" where
  "click_play_toggle st =
     (if \<not> player_visible st then Inr (st, Done)
      else if isPlaying st
      then (case tts_stopAudio (engine st) st of Inl e \<Rightarrow> Inl e | Inr st' \<Rightarrow> Inr (st', Done))
      else if engine st = Gemini
      then (case generatedAudio st of
              None \<Rightarrow> Inr (st, Done)
            | Some buffer \<Rightarrow>
                (case playBuffer Gemini buffer st of
                   Inl e \<Rightarrow> Inl e
                 | Inr st' \<Rightarrow> Inr (st', Done)))
      else handleGenerate st)"

text \<open>The two engine buttons:
  \<^verbatim>\<open>onClick={() => { setEngine('system'); stopAudio(); setGeneratedAudio(null); }}\<close>
  \<open>stopAudio\<close> is the one of the current render, so it reads the engine in use before
  the click.\<close>

definition click_engine :: "TtsEngine \<Rightarrow> TtsTool \<Rightarrow> js_error + TtsTool" where
  "click_engine e st =
     (case tts_stopAudio (engine st) (st\<lparr>engine := e\<rparr>) of
        Inl err \<Rightarrow> Inl err
      | Inr st' \<Rightarrow> Inr (st'\<lparr>generatedAudio := None\<rparr>))"

text \<open>The cleanup of the effect, run when the component is removed:
  \<^verbatim>\<open>stopAudio();
  if (audioContextRef.current) audioContextRef.current.close();
  window.speechSynthesis.cancel();\<close>
  \<open>stopAudio\<close> is the one of the render in which the effect was set up.\<close>

definition tts_teardown :: "TtsEngine \<Rightarrow> TtsTool \<Rightarrow> js_error + TtsTool" where
  "tts_teardown closure_engine st =
     (case tts_stopAudio closure_engine st of
        Inl e \<Rightarrow> Inl e
      | Inr st' \<Rightarrow>
          Inr (st'\<lparr>audioContextRef := map_option (\<lambda>c. Closed) (audioContextRef st'),
                   speechPending := False\<rparr>))"

section \<open>\<open>AiTtsPreview\<close>\<close>

text \<open>\<open>stopAudio\<close> of \<open>AiTtsPreview\<close>: the playing flag is only cleared while the
  component is mounted.\<close>

definition preview_stopAudio :: "AiTtsPreview \<Rightarrow> js_error + AiTtsPreview" where
  "preview_stopAudio st =
     (case stop_source st of
        Inl e \<Rightarrow> Inl e
      | Inr st' \<Rightarrow> Inr (if isMounted st' then st'\<lparr>isPlaying := False\<rparr> else st'))"

text \<open>\<open>handlePlay\<close> up to its first \<open>await\<close>.\<close>

definition handlePlay :: "AiTtsPreview \<Rightarrow> js_error + AiTtsPreview \<times> pending" where
  "handlePlay st =
     (if isLoading st then Inr (st, Done)
      else if isPlaying st
      then (case preview_stopAudio st of Inl e \<Rightarrow> Inl e | Inr st' \<Rightarrow> Inr (st', Done))
      else if wordCount (script_text st) > MAX_WORDS
      then Inr (st\<lparr>error := Some ''max limit is 20k words''\<rparr>, Done)
      else if \<not> env_API_KEY st \<and> \<not> hasApiKey st
      then Inr (st\<lparr>error := Some ''Authentication required for AI Preview.''\<rparr>, Done)
      else Inr (st\<lparr>isLoading := True, error := None,
                   calls := calls st @ [GenerateContent (script_text st) (selectedVoiceName st)]\<rparr>,
                AwaitGenerateContent))"

text \<open>The cleanup of the effect of \<open>AiTtsPreview\<close>:
  \<^verbatim>\<open>isMountedRef.current = false;
  stopAudio();
  if (audioContextRef.current && audioContextRef.current.state !== 'closed')
    audioContextRef.current.close().catch(console.error);\<close>\<close>

definition preview_teardown :: "AiTtsPreview \<Rightarrow> js_error + AiTtsPreview" where
  "preview_teardown st =
     (case preview_stopAudio (st\<lparr>isMounted := False\<rparr>) of
        Inl e \<Rightarrow> Inl e
      | Inr st' \<Rightarrow> Inr (st'\<lparr>audioContextRef := map_option (\<lambda>c. Closed) (audioContextRef st')\<rparr>))"

text \<open>\<open>handlePlay\<close> after the request has settled, up to the \<open>await\<close> of
  \<open>decodeAudioData\<close>: the state it leaves, and either the decoded audio it goes on with
  or nothing, when it returned or threw. The first statement after the \<open>await\<close> is
  \<open>if (!isMountedRef.current) return;\<close>; the \<open>catch\<close> and \<open>finally\<close> blocks set
  the error and clear the loading flag only while the component is mounted. The audio
  context the ref holds afterwards is taken to be running.\<close>

definition preview_catch :: "string \<Rightarrow> AiTtsPreview \<Rightarrow> AiTtsPreview" where
  "preview_catch message st =
     (if isMounted st
      then st\<lparr>error := Some (if message = []
                              then ''Failed to generate speech. Try a shorter segment.''
                              else message),
               isLoading := False\<rparr>
      else st)"

definition preview_finally :: "AiTtsPreview \<Rightarrow> AiTtsPreview" where
  "preview_finally st = (if isMounted st then st\<lparr>isLoading := False\<rparr> else st)"

definition handlePlay_resume ::
  "response \<Rightarrow> AiTtsPreview \<Rightarrow> AiTtsPreview \<times> (js_error + AudioBuffer) option" where
  "handlePlay_resume r st =
     (case r of
        Rejected msg \<Rightarrow> (preview_catch msg st, None)
      | InlineAudio payload \<Rightarrow>
          if \<not> isMounted st then (preview_finally st, None)
          else
            (let st1 = st\<lparr>audioContextRef := Some Running\<rparr> in
             case payload of
               Inl msg \<Rightarrow> (preview_catch msg st1, None)
             | Inr rawBytes \<Rightarrow> (st1, Some (decodeAudioData rawBytes 24000 1)))
      | other \<Rightarrow>
          if \<not> isMounted st then (preview_finally st, None)
          else (preview_catch
                  ''The script is too long or triggers a safety filter for audio output.'' st,
                None))"

text \<open>\<open>handlePlay\<close> after \<open>decodeAudioData\<close> has settled.\<close>

definition handlePlay_decoded :: "js_error + AudioBuffer \<Rightarrow> AiTtsPreview \<Rightarrow> AiTtsPreview" where
  "handlePlay_decoded decoded st =
     (case decoded of
        Inl e \<Rightarrow> preview_catch (message_of e) st
      | Inr audioBuffer \<Rightarrow>
          if \<not> isMounted st then preview_finally st
          else preview_finally
                 (st\<lparr>sources := sources st @ [Playing],
                     sourceNodeRef := Some (length (sources st)),
                     isPlaying := True\<rparr>))"

text \<open>The callback
  \<open>source.onended = () => { if (isMountedRef.current) setIsPlaying(false); }\<close>
  of node \<open>i\<close>.\<close>

definition preview_source_onended :: "nat \<Rightarrow> AiTtsPreview \<Rightarrow> AiTtsPreview" where
  "preview_source_onended i st =
     (let st' = st\<lparr>sources := (if i < length (sources st) then (sources st)[i := Stopped]
                                   else sources st)\<rparr>
      in if isMounted st' then st'\<lparr>isPlaying := False\<rparr> else st')"

section \<open>Auxiliary definitions for the statements\<close>

text \<open>The state \<open>stop_source\<close> returns.\<close>

definition released :: "'a component_scheme \<Rightarrow> 'a component_scheme" where
  "released st = (case stop_source st of Inl e \<Rightarrow> st | Inr st' \<Rightarrow> st')"

text \<open>Calling a function that may throw several times in a row.\<close>

fun repeatedly :: "nat \<Rightarrow> ('a \<Rightarrow> js_error + 'a) \<Rightarrow> 'a \<Rightarrow> js_error + 'a" where
  "repeatedly 0 f x = Inr x"
| "repeatedly (Suc n) f x = (case f x of Inl e \<Rightarrow> Inl e | Inr y \<Rightarrow> repeatedly n f y)"

text \<open>A script of \<open>k + 1\<close> words: the letter \<open>w\<close>, then \<open>k\<close> times a space and the
  letter \<open>w\<close>.\<close>

fun word_script :: "nat \<Rightarrow> jsstring" where
  "word_script 0 = [119]"
| "word_script (Suc k) = 119 # 32 # word_script k"

text \<open>A freshly opened \<open>TtsTool\<close> with a script and an API key, and a freshly mounted
  \<open>AiTtsPreview\<close>.\<close>

definition tts_initial :: "jsstring \<Rightarrow> bool \<Rightarrow> TtsTool" where
  "tts_initial script key =
     \<lparr>script_text = script, selectedVoiceName = [], isPlaying = False, isLoading = False,
      error = None, hasApiKey = key, env_API_KEY = False, audioContextRef = None,
      sourceNodeRef = None, sources = [], calls = [],
      engine = Gemini, systemVoices = [], selectedSystemVoiceURI = [],
      generatedAudio = None, speechPending = False, utteranceSupported = True\<rparr>"

definition preview_initial :: "jsstring \<Rightarrow> bool \<Rightarrow> AiTtsPreview" where
  "preview_initial script key =
     \<lparr>script_text = script, selectedVoiceName = [], isPlaying = False, isLoading = False,
      error = None, hasApiKey = key, env_API_KEY = False, audioContextRef = None,
      sourceNodeRef = None, sources = [], calls = [], isMounted = True\<rparr>"

section \<open>Proofs about the codec and the WAV encoder\<close>

lemma word_cat_le16: "word_cat (ucast (drop_bit 8 w) :: byte) (ucast w :: byte) = (w :: 16 word)"
  by (rule bit_word_eqI) (auto simp: bit_simps)

lemma write_at_middle:
  "length pre = pos \<Longrightarrow> length bs = length old \<Longrightarrow>
   write_at (pre @ old @ rest) pos bs = Inr (pre @ bs @ rest)"
  by (simp add: write_at_def)

lemma js_trunc_of_nat_div: "js_trunc (of_nat a / of_nat b) = int (a div b)"
proof -
  have "\<not> (of_nat a / of_nat b :: rat) < 0"
    by (simp add: not_less)
  then show ?thesis
    by (simp add: js_trunc_def floor_divide_of_nat_eq)
qed

lemma ToUint32_of_nat_div:
  assumes "a div b < 2 ^ 32"
  shows "ToUint32 (of_nat a / of_nat b) = a div b"
proof -
  have "int (a div b) < 2 ^ 32"
    using assms by (metis of_nat_less_iff of_nat_numeral of_nat_power)
  then have "int (a div b) mod 2 ^ 32 = int (a div b)"
    by simp
  then show ?thesis
    by (simp add: ToUint32_def js_trunc_of_nat_div)
qed

lemma length_int16_pairs: "length (int16_pairs bs) = length bs div 2"
  by (induction bs rule: int16_pairs.induct) simp_all

lemma replicate_44:
  "replicate 44 x =
     [x, x, x, x, x, x, x, x, x, x, x, x, x, x, x, x, x, x, x, x, x, x,
      x, x, x, x, x, x, x, x, x, x, x, x, x, x, x, x, x, x, x, x, x, x]"
  by (simp add: numeral_eq_Suc)

lemma write_header_eq:
  "write_header b (buf_length b * numberOfChannels b * 2 + 44) (replicate 44 0 @ t, 0)
     = Inr (wav_header (numberOfChannels b) (sampleRate b) (buf_length b) @ t, 44)"
  by (simp add: replicate_44 write_header_def put_string_def put_u32_def put_u16_def
        setUint8_def setUint16_def setUint32_def write_at_def wav_header_def ascii_def
        u32le_def u16le_def le16_def le32_def)

lemma take_Suc_update: "i < length xs \<Longrightarrow> take (Suc i) (xs[i := v]) = take i xs @ [v]"
  by (simp add: take_Suc_conv_app_nth)

lemma decode_channel_eq:
  assumes "length cd = L" and "of_nat L \<le> fc" and "fc < of_nat L + 1"
  shows "decode_channel d n c fc i cd
           = take i cd @ map (\<lambda>j. int16_div d (j * n + c)) [i..<L]"
  using assms
proof (induction d n c fc i cd rule: decode_channel.induct)
  case (1 d n c fc i cd)
  note len_cd = "1.prems"(1) and lo = "1.prems"(2) and hi = "1.prems"(3)
  show ?case
  proof (cases "of_nat i < fc")
    case True
    have iL: "i \<le> L"
    proof (rule ccontr)
      assume "\<not> i \<le> L"
      then have "Suc L \<le> i" by simp
      then have "(of_nat (Suc L) :: rat) \<le> of_nat i"
        by (simp only: of_nat_le_iff)
      then have "(of_nat L :: rat) + 1 \<le> of_nat i"
        by simp
      with True hi show False by linarith
    qed
    show ?thesis
    proof (cases "i < L")
      case inner: True
      have len: "length (f32_set cd i (int16_div d (i * n + c))) = L"
        using len_cd by (simp add: f32_set_def)
      have "decode_channel d n c fc i cd
              = decode_channel d n c fc (Suc i) (f32_set cd i (int16_div d (i * n + c)))"
        using True by (subst decode_channel.simps) simp
      also have "\<dots> = take (Suc i) (f32_set cd i (int16_div d (i * n + c)))
                        @ map (\<lambda>j. int16_div d (j * n + c)) [Suc i..<L]"
        using "1.IH" [OF True len lo hi] .
      also have "\<dots> = take i cd @ map (\<lambda>j. int16_div d (j * n + c)) [i..<L]"
        using inner len_cd by (simp add: f32_set_def take_Suc_update upt_conv_Cons)
      finally show ?thesis .
    next
      case False
      with iL have eq: "i = L" by simp
      have same: "f32_set cd i (int16_div d (i * n + c)) = cd"
        using len_cd eq by (simp add: f32_set_def)
      have "decode_channel d n c fc i cd = decode_channel d n c fc (Suc i) cd"
        using True same by (subst decode_channel.simps) simp
      also have "\<dots> = take (Suc i) cd @ map (\<lambda>j. int16_div d (j * n + c)) [Suc i..<L]"
        using "1.IH" [OF True _ lo hi] same len_cd by simp
      also have "\<dots> = take i cd @ map (\<lambda>j. int16_div d (j * n + c)) [i..<L]"
        using eq len_cd by simp
      finally show ?thesis .
    qed
  next
    case False
    have "L \<le> i"
    proof (rule ccontr)
      assume "\<not> L \<le> i"
      then have "(of_nat i :: rat) < of_nat L"
        by (simp only: of_nat_less_iff)
      with lo False show False by simp
    qed
    then show ?thesis
      using False len_cd by (subst decode_channel.simps) simp
  qed
qed

lemma frame_count_bounds:
  assumes "0 < n"
  shows "(of_nat (m div n) :: rat) \<le> of_nat m / of_nat n"
    and "(of_nat m / of_nat n :: rat) < of_nat (m div n) + 1"
proof -
  have pos: "(0 :: rat) < of_nat n"
    using assms by simp
  have "m div n * n \<le> m"
    by simp
  then have "(of_nat (m div n * n) :: rat) \<le> of_nat m"
    by (simp only: of_nat_le_iff)
  then show "(of_nat (m div n) :: rat) \<le> of_nat m / of_nat n"
    using pos by (simp add: pos_le_divide_eq)
  have "m < (m div n + 1) * n"
    using assms dividend_less_div_times [of n m] by (simp add: algebra_simps)
  then have "(of_nat m :: rat) < of_nat ((m div n + 1) * n)"
    by (simp only: of_nat_less_iff)
  then show "(of_nat m / of_nat n :: rat) < of_nat (m div n) + 1"
    using pos by (simp add: pos_divide_less_eq algebra_simps)
qed

lemma decodeAudioData_eq:
  assumes "even (length data)" and "0 < n" and "n \<le> length data div 2"
    and "length data div 2 div n < 2 ^ 32" and "supported_format n rate"
  shows "decodeAudioData data rate n
           = Inr \<lparr>sampleRate = rate, buf_length = length data div 2 div n,
                  getChannelData = decoded_channels (int16_pairs data) n (length data div 2 div n)\<rparr>"
proof -
  define L where "L = length data div 2 div n"
  define fc :: rat where "fc = of_nat (length data div 2) / of_nat n"
  have L_pos: "0 < L"
    using assms(2,3) by (simp add: L_def div_greater_zero_iff)
  have u32: "ToUint32 fc = L"
    using assms(4) by (simp add: fc_def L_def ToUint32_of_nat_div)
  have lo: "of_nat L \<le> fc" and hi: "fc < of_nat L + 1"
    using frame_count_bounds [OF assms(2), of "length data div 2"] by (simp_all add: fc_def L_def)
  have chan: "decode_channel (int16_pairs data) n c fc 0 (replicate L (Num 0))
                = map (\<lambda>i. int16_div (int16_pairs data) (i * n + c)) [0..<L]" for c
    using decode_channel_eq [OF _ lo hi, of "replicate L (Num 0)" "int16_pairs data" n c 0]
    by simp
  have "map (\<lambda>channel. decode_channel (int16_pairs data) n channel fc 0
                (replicate n (replicate L (Num 0)) ! channel)) [0..<n]
          = decoded_channels (int16_pairs data) n L"
    unfolding decoded_channels_def by (rule map_cong) (simp_all add: chan)
  then show ?thesis
    using assms(1,2,5) L_pos u32
    by (simp add: decodeAudioData_def Int16Array_def createBuffer_def decode_channels_def
          length_int16_pairs Let_def flip: fc_def L_def)
qed

lemma length_le16: "length (le16 w) = 2"
  by (simp add: le16_def)

lemma length_frame_bytes: "length (frame_bytes chs offset) = 2 * length chs"
  by (induction chs) (simp_all add: frame_bytes_def frame_words_def length_le16)

lemma write_frame_middle:
  "length old = 2 * length chs \<Longrightarrow>
   write_frame chs offset (pre @ old @ rest, length pre)
     = Inr (pre @ frame_bytes chs offset @ rest, length pre + 2 * length chs)"
proof (induction chs arbitrary: pre old)
  case Nil
  then show ?case by (simp add: frame_bytes_def frame_words_def)
next
  case (Cons ch chs)
  define w where "w = le16 (pcm16 (f32_get ch offset))"
  have lw: "length w = 2"
    by (simp add: w_def length_le16)
  obtain o2 os where old: "old = o2 @ os" and l2: "length o2 = 2" and los: "length os = 2 * length chs"
    using Cons.prems
    by (metis (no_types, lifting) append_take_drop_id length_Cons length_drop
        add_diff_cancel_left' length_take min.absorb2 mult_Suc_right le_add1)
  have step: "setInt16 (pre @ old @ rest) (length pre) (scale_sample (clamp_sample (f32_get ch offset)))
                = Inr ((pre @ w) @ os @ rest)"
    using write_at_middle [of pre "length pre" w o2 "os @ rest"] lw l2
    by (simp add: setInt16_def old w_def pcm16_def)
  have "write_frame chs offset ((pre @ w) @ os @ rest, length (pre @ w))
          = Inr ((pre @ w) @ frame_bytes chs offset @ rest, length (pre @ w) + 2 * length chs)"
    using Cons.IH [OF los] .
  then show ?case
    using step lw by (simp add: frame_bytes_def frame_words_def w_def)
qed

lemma sample_loop_frames:
  assumes "chs \<noteq> []"
  shows "length rest = 2 * length chs * k \<Longrightarrow>
   sample_loop chs (length pre + length rest) ((pre @ rest, length pre), offset)
     = Some (Inr (pre @ concat (map (frame_bytes chs) [offset..<offset + k])))"
proof (induction k arbitrary: pre rest offset)
  case 0
  then show ?case
    by (subst sample_loop.simps) simp
next
  case (Suc k)
  define old where "old = take (2 * length chs) rest"
  define rest' where "rest' = drop (2 * length chs) rest"
  have rest: "rest = old @ rest'" and lold: "length old = 2 * length chs"
    and lrest': "length rest' = 2 * length chs * k"
    using Suc.prems by (simp_all add: old_def rest'_def)
  have pos: "length pre < length pre + length rest"
    using Suc.prems assms by simp
  have frame: "write_frame chs offset (pre @ rest, length pre)
                 = Inr ((pre @ frame_bytes chs offset) @ rest', length (pre @ frame_bytes chs offset))"
    using write_frame_middle [OF lold, of offset pre rest']
    by (simp add: rest length_frame_bytes)
  have len: "length pre + length rest = length (pre @ frame_bytes chs offset) + length rest'"
    by (simp add: rest lold length_frame_bytes)
  have "sample_loop chs (length pre + length rest) ((pre @ rest, length pre), offset)
          = sample_loop chs (length pre + length rest)
              (((pre @ frame_bytes chs offset) @ rest', length (pre @ frame_bytes chs offset)), Suc offset)"
    using pos by (subst sample_loop.simps) (simp add: frame)
  also have "\<dots> = Some (Inr ((pre @ frame_bytes chs offset)
                       @ concat (map (frame_bytes chs) [Suc offset..<Suc offset + k])))"
    unfolding len using Suc.IH [OF lrest'] .
  also have "\<dots> = Some (Inr (pre @ concat (map (frame_bytes chs) [offset..<offset + Suc k])))"
    using upt_conv_Cons [of offset "offset + Suc k"] by simp
  finally show ?case .
qed

lemma sample_loop_no_channels:
  "sample_loop [] (length view) ((view, length view), offset) = Some (Inr view)"
  by (subst sample_loop.simps) simp

lemma frame_bytes_no_channels: "frame_bytes [] offset = []"
  by (simp add: frame_bytes_def frame_words_def)

lemma createWavFile_eq:
  "createWavFile b
     = Some (Inr (wav_header (numberOfChannels b) (sampleRate b) (buf_length b)
                  @ interleaved_pcm16 b))"
proof -
  define n where "n = buf_length b * numberOfChannels b * 2"
  define hdr where "hdr = wav_header (numberOfChannels b) (sampleRate b) (buf_length b)"
  have lh: "length hdr = 44"
    by (simp add: hdr_def wav_header_def ascii_def u32le_def u16le_def le16_def le32_def)
  have view: "replicate (n + 44) (0 :: byte) = replicate 44 0 @ replicate n 0"
    by (simp add: replicate_add [symmetric] add.commute)
  have header: "write_header b (n + 44) (replicate (n + 44) 0, 0) = Inr (hdr @ replicate n 0, 44)"
    unfolding view unfolding n_def hdr_def by (rule write_header_eq)
  have loop: "sample_loop (getChannelData b) (n + 44) ((hdr @ replicate n 0, 44), 0)
                = Some (Inr (hdr @ interleaved_pcm16 b))"
  proof (cases "getChannelData b = []")
    case True
    then have "n = 0"
      by (simp add: n_def numberOfChannels_def)
    then show ?thesis
      using sample_loop_no_channels [of hdr 0] True lh
      by (simp add: interleaved_pcm16_def frame_bytes_no_channels)
  next
    case False
    have "length (replicate n (0 :: byte)) = 2 * length (getChannelData b) * buf_length b"
      by (simp add: n_def numberOfChannels_def)
    from sample_loop_frames [OF False this, of hdr 0] show ?thesis
      by (simp add: lh interleaved_pcm16_def add.commute)
  qed
  show ?thesis
    using header loop by (simp add: createWavFile_def Let_def flip: n_def hdr_def)
qed

lemma int16_pairs_words: "int16_pairs (concat (map le16 ws) @ rest) = ws @ int16_pairs rest"
  by (induction ws) (simp_all add: le16_def word_cat_le16)

lemma int16_pairs_frame_bytes:
  "int16_pairs (frame_bytes chs offset @ rest) = frame_words chs offset @ int16_pairs rest"
  by (simp add: frame_bytes_def int16_pairs_words)

lemma int16_pairs_frames:
  "int16_pairs (concat (map (frame_bytes chs) js)) = concat (map (frame_words chs) js)"
proof (induction js)
  case Nil
  show ?case by simp
next
  case (Cons j js)
  then show ?case by (simp add: int16_pairs_frame_bytes)
qed

lemma length_frame_words: "length (frame_words chs offset) = length chs"
  by (simp add: frame_words_def)

lemma length_concat_frames:
  "(\<And>j. length (f j) = n) \<Longrightarrow> length (concat (map f [0..<m])) = m * n"
  by (induction m) simp_all

lemma nth_concat_frames:
  assumes "\<And>j. length (f j) = n" and "i < m" and "c < n"
  shows "concat (map f [0..<m]) ! (i * n + c) = f i ! c"
  using assms(2)
proof (induction m)
  case 0
  then show ?case by simp
next
  case (Suc m)
  have len: "length (concat (map f [0..<m])) = m * n"
    using assms(1) by (rule length_concat_frames)
  show ?case
  proof (cases "i < m")
    case True
    have "i * n + c < m * n"
    proof -
      have "i * n + c < i * n + n" using assms(3) by simp
      also have "\<dots> = Suc i * n" by simp
      also have "\<dots> \<le> m * n" using True by (intro mult_le_mono1) simp
      finally show ?thesis .
    qed
    then show ?thesis
      using Suc.IH [OF True] len by (simp add: nth_append)
  next
    case False
    with Suc.prems have "i = m" by simp
    then show ?thesis
      using len by (simp add: nth_append)
  qed
qed

lemma nth_int16_pairs:
  "k < length bs div 2 \<Longrightarrow> int16_pairs bs ! k = word_cat (bs ! (2 * k + 1)) (bs ! (2 * k))"
proof (induction bs arbitrary: k rule: int16_pairs.induct)
  case (1 lo hi bs)
  show ?case
  proof (cases k)
    case 0
    then show ?thesis by simp
  next
    case (Suc k')
    with "1.prems" have "k' < length bs div 2" by simp
    from "1.IH" [OF this] show ?thesis
      by (simp add: Suc)
  qed
qed simp_all

lemma map_index_nth: "map (\<lambda>i. f (xs ! i)) [0..<length xs] = map f xs"
  by (rule nth_equalityI) simp_all

lemma decoded_channels_interleaved:
  assumes "list_all (\<lambda>ch. length ch = m) chs"
  shows "decoded_channels (concat (map (frame_words chs) [0..<m])) (length chs) m
           = map (map requantize) chs"
proof -
  have len: "length (chs ! c) = m" if "c < length chs" for c
    using assms that by (simp add: list_all_length)
  have total: "length (concat (map (frame_words chs) [0..<m])) = m * length chs"
    by (rule length_concat_frames) (rule length_frame_words)
  have sample: "int16_div (concat (map (frame_words chs) [0..<m])) (i * length chs + c)
                  = requantize (chs ! c ! i)"
    if "c < length chs" and "i < m" for c i
  proof -
    have "i * length chs + c < m * length chs"
    proof -
      have "i * length chs + c < Suc i * length chs" using that(1) by simp
      also have "\<dots> \<le> m * length chs" using that(2) by (intro mult_le_mono1) simp
      finally show ?thesis .
    qed
    moreover have "concat (map (frame_words chs) [0..<m]) ! (i * length chs + c)
                     = frame_words chs i ! c"
      using that by (intro nth_concat_frames) (simp_all add: length_frame_words)
    ultimately show ?thesis
      using that len [OF that(1)]
      by (simp add: int16_div_def total requantize_def frame_words_def f32_get_def)
  qed
  have chan: "map (\<lambda>i. int16_div (concat (map (frame_words chs) [0..<m])) (i * length chs + c)) [0..<m]
                = map requantize (chs ! c)" if "c < length chs" for c
  proof -
    have "map (\<lambda>i. int16_div (concat (map (frame_words chs) [0..<m])) (i * length chs + c)) [0..<m]
            = map (\<lambda>i. requantize (chs ! c ! i)) [0..<length (chs ! c)]"
      using that by (simp add: len sample)
    also have "\<dots> = map requantize (chs ! c)"
      by (rule map_index_nth)
    finally show ?thesis .
  qed
  have "decoded_channels (concat (map (frame_words chs) [0..<m])) (length chs) m
          = map (\<lambda>c. map requantize (chs ! c)) [0..<length chs]"
    unfolding decoded_channels_def by (rule map_cong) (simp_all add: chan)
  also have "\<dots> = map (map requantize) chs"
    by (rule map_index_nth)
  finally show ?thesis .
qed

lemma sint_word16_of_int:
  "- 32768 \<le> k \<Longrightarrow> k \<le> 32767 \<Longrightarrow> sint (word_of_int k :: 16 word) = k"
  by (simp add: sint_sbintrunc' signed_take_bit_int_eq_self)

lemma js_trunc_eq: "js_trunc x = truncate_towards_zero x"
  by (auto simp: js_trunc_def truncate_towards_zero_def ceiling_def)

lemma encode_sample_spec_js:
  "encode_sample_spec v =
     (let c = max (- 1) (min 1 v)
      in if c < 0 then js_trunc (c * 32768) else js_trunc (c * 32767))"
proof -
  have clamp: "(if v < - 1 then - 1 else if 1 < v then 1 else v) = max (- 1) (min 1 v)"
    by (simp add: max_def min_def)
  show ?thesis
    unfolding encode_sample_spec_def clamp Let_def js_trunc_eq by (rule if_distrib)
qed

lemma pcm16_Num: "pcm16 (Num v) = word_of_int (encode_sample_spec v)"
proof -
  define c where "c = max (- 1) (min 1 v)"
  have "pcm16 (Num v) = ToInt16 (scale_sample (Num c))"
    unfolding pcm16_def c_def by (simp only: clamp_sample.simps)
  also have "\<dots> = word_of_int (if c < 0 then js_trunc (c * 32768) else js_trunc (c * 32767))"
    by simp
  also have "\<dots> = word_of_int (encode_sample_spec v)"
    unfolding encode_sample_spec_js Let_def c_def [symmetric] ..
  finally show ?thesis .
qed

lemma encode_sample_spec_range:
  "- 32768 \<le> encode_sample_spec v \<and> encode_sample_spec v \<le> 32767"
proof -
  define c where "c = max (- 1) (min 1 v)"
  have lo: "- 1 \<le> c" and hi: "c \<le> 1"
    by (simp_all add: c_def)
  have enc: "encode_sample_spec v = (if c < 0 then js_trunc (c * 32768) else js_trunc (c * 32767))"
    unfolding encode_sample_spec_js Let_def c_def [symmetric] ..
  show ?thesis
  proof (cases "c < 0")
    case True
    define f where "f = \<lfloor>- (c * 32768)\<rfloor>"
    have "0 \<le> - (c * 32768)" and "- (c * 32768) \<le> 32768"
      using True lo by simp_all
    then have "0 \<le> f" and "f \<le> 32768"
      unfolding f_def by (simp_all only: zero_le_floor floor_le_iff)
    moreover have "c * 32768 < 0"
      using True by simp
    then have "js_trunc (c * 32768) = - f"
      unfolding js_trunc_def f_def by simp
    ultimately show ?thesis
      using True by (simp add: enc)
  next
    case False
    define f where "f = \<lfloor>c * 32767\<rfloor>"
    have nonneg: "0 \<le> c * 32767" and "c * 32767 \<le> 32767"
      using False hi by simp_all
    then have "0 \<le> f" and "f \<le> 32767"
      unfolding f_def by (simp_all only: zero_le_floor floor_le_iff)
    moreover have "js_trunc (c * 32767) = f"
      unfolding js_trunc_def f_def using nonneg by (simp add: not_less)
    ultimately show ?thesis
      using False by (simp add: enc)
  qed
qed

lemma decode_sample_spec_range:
  "\<exists>x. decode_sample_spec s = Num x \<and> - 1 \<le> x \<and> x \<le> 32767 / 32768"
proof -
  define k where "k = sint s"
  have "- 32768 \<le> k" and "k \<le> 32767"
    using sint_ge [of s] sint_lt [of s] by (simp_all add: k_def)
  then have "- 32768 \<le> (of_int k :: rat)" and "(of_int k :: rat) \<le> 32767"
    by (simp_all only: of_int_le_iff [where 'a = rat, symmetric])
  then have "- 1 \<le> (of_int k :: rat) / 32768" and "(of_int k :: rat) / 32768 \<le> 32767 / 32768"
    by (simp_all add: le_divide_eq divide_le_eq)
  then show ?thesis
    unfolding decode_sample_spec_def k_def [symmetric] by blast
qed

lemma quantized16_cases:
  assumes "quantized16 v"
  obtains k where "v = Num (of_int k / 32768)" and "- 32768 \<le> k" and "k \<le> 32767"
proof -
  from assms obtain x where v: "v = Num x" and int: "of_int \<lfloor>x * 32768\<rfloor> = x * 32768"
    and lo: "- 1 \<le> x" and hi: "x < 1"
    by (cases v) (simp_all add: quantized16_def)
  define k where "k = \<lfloor>x * 32768\<rfloor>"
  have xk: "x * 32768 = of_int k"
    unfolding k_def using int by (rule sym)
  have x: "x = of_int k / 32768"
    unfolding xk [symmetric] by simp
  have "- 32768 \<le> x * 32768" and "x * 32768 < 32768"
    using lo hi by simp_all
  then have "- 32768 \<le> k" and "k < 32768"
    by (simp_all add: k_def le_floor_iff floor_less_iff)
  then show thesis
    using that [of k] v x by simp
qed

lemma encode_quantized:
  assumes "- 32768 \<le> k" and "k \<le> 32767"
  shows "encode_sample_spec (of_int k / 32768) = (if 0 < k then k - 1 else k)"
proof -
  define x :: rat where "x = of_int k / 32768"
  have lo: "- 1 \<le> x" and hi: "x \<le> 1"
    using assms by (simp_all add: x_def le_divide_eq divide_le_eq)
  then have clamp: "max (- 1) (min 1 x) = x"
    by simp
  show ?thesis
  proof (cases "k < 0")
    case True
    then have neg: "x < 0"
      by (simp add: x_def divide_less_eq)
    have "x * 32768 = of_int k"
      by (simp add: x_def)
    then have "js_trunc (x * 32768) = k"
      using True by (simp add: js_trunc_def)
    then show ?thesis
      using True neg clamp by (simp add: encode_sample_spec_js Let_def flip: x_def)
  next
    case False
    then have nonneg: "\<not> x < 0"
      by (simp add: x_def not_less)
    have "x * 32767 = of_int (k * 32767) / of_int 32768"
      by (simp add: x_def)
    then have "\<lfloor>x * 32767\<rfloor> = k * 32767 div 32768"
      by (simp only: floor_divide_of_int_eq)
    also have "\<dots> = (if 0 < k then k - 1 else k)"
      using False assms by auto
    finally have "js_trunc (x * 32767) = (if 0 < k then k - 1 else k)"
      using nonneg by (simp add: js_trunc_def)
    then show ?thesis
      using nonneg clamp by (simp add: encode_sample_spec_js Let_def flip: x_def)
  qed
qed

lemma requantize_quantized:
  assumes "quantized16 v"
  shows "requantize v = lower_positive v"
proof -
  from assms obtain k where v: "v = Num (of_int k / 32768)" and lo: "- 32768 \<le> k" and hi: "k \<le> 32767"
    by (rule quantized16_cases)
  have enc: "encode_sample_spec (of_int k / 32768) = (if 0 < k then k - 1 else k)"
    using lo hi by (rule encode_quantized)
  have "sint (word_of_int (if 0 < k then k - 1 else k) :: 16 word) = (if 0 < k then k - 1 else k)"
    using lo hi by (intro sint_word16_of_int) simp_all
  then have "requantize v = Num (of_int (if 0 < k then k - 1 else k) / 32768)"
    by (simp add: requantize_def v pcm16_Num enc)
  also have "\<dots> = lower_positive v"
    by (simp add: v diff_divide_distrib zero_less_divide_iff)
  finally show ?thesis .
qed

lemma length_wav_header: "length (wav_header nch rate frames) = 44"
  by (simp add: wav_header_def ascii_def u32le_def u16le_def le16_def le32_def)

lemma length_interleaved_pcm16:
  "length (interleaved_pcm16 b) = buf_length b * numberOfChannels b * 2"
  unfolding interleaved_pcm16_def numberOfChannels_def
  using length_concat_frames [of "frame_bytes (getChannelData b)" "2 * length (getChannelData b)" "buf_length b"]
  by (simp add: length_frame_bytes)

lemma sampleBufferToBytes_eq: "sampleBufferToBytes b = Some (Inr (interleaved_pcm16 b))"
  by (simp add: sampleBufferToBytes_def createWavFile_eq length_wav_header)

lemma round_trip_requantize:
  assumes "audio_buffer_ok b"
  shows "pcm16_round_trip b
           = Some (Inr (b\<lparr>getChannelData := map (map requantize) (getChannelData b)\<rparr>))"
proof -
  define chs where "chs = getChannelData b"
  define m where "m = buf_length b"
  have ok: "supported_format (length chs) (sampleRate b)" "chs \<noteq> []" "0 < m" "m < 2 ^ 32"
    "list_all (\<lambda>ch. length ch = m) chs"
    using assms by (auto simp: audio_buffer_ok_def supported_format_def chs_def m_def)
  have len: "length (interleaved_pcm16 b) = m * length chs * 2"
    by (simp add: length_interleaved_pcm16 numberOfChannels_def chs_def m_def)
  have half: "length (interleaved_pcm16 b) div 2 = m * length chs"
    by (simp add: len)
  have frames: "length (interleaved_pcm16 b) div 2 div length chs = m"
    using ok(2) by (simp add: half)
  have "length chs \<le> m * length chs"
    using ok(3) by simp
  then have dec: "decodeAudioData (interleaved_pcm16 b) (sampleRate b) (length chs)
          = Inr \<lparr>sampleRate = sampleRate b, buf_length = m,
                 getChannelData = decoded_channels (int16_pairs (interleaved_pcm16 b)) (length chs) m\<rparr>"
    using decodeAudioData_eq [of "interleaved_pcm16 b" "length chs" "sampleRate b"] ok
    by (simp add: frames half len)
  have "int16_pairs (interleaved_pcm16 b) = concat (map (frame_words chs) [0..<m])"
    by (simp add: interleaved_pcm16_def int16_pairs_frames chs_def m_def)
  then have "decoded_channels (int16_pairs (interleaved_pcm16 b)) (length chs) m
               = map (map requantize) chs"
    using decoded_channels_interleaved [OF ok(5)] by simp
  with dec show ?thesis
    by (simp add: pcm16_round_trip_def sampleBufferToBytes_eq numberOfChannels_def chs_def m_def)
qed

lemma round_trip_quantized:
  assumes "audio_buffer_ok b" and "buffer_quantized16 b"
  shows "pcm16_round_trip b
           = Some (Inr (b\<lparr>getChannelData := map (map lower_positive) (getChannelData b)\<rparr>))"
proof -
  have "map (map requantize) (getChannelData b) = map (map lower_positive) (getChannelData b)"
    using assms(2)
    by (auto simp: buffer_quantized16_def list_all_iff requantize_quantized)
  then show ?thesis
    using round_trip_requantize [OF assms(1)] by simp
qed

lemma lower_positive_fixed: "lower_positive v = v \<longleftrightarrow> v = NaN \<or> nonpositive v"
  by (cases v) auto

lemma map_map_fixed:
  "map (map f) xss = xss \<longleftrightarrow> list_all (list_all (\<lambda>x. f x = x)) xss"
  by (induction xss) (simp_all add: list_all_iff map_idI map_eq_conv [where g = id, simplified])

lemma int16_pairs_take: "int16_pairs (take (2 * k) bs) = take k (int16_pairs bs)"
proof (induction bs arbitrary: k rule: int16_pairs.induct)
  case (1 lo hi bs)
  show ?case
  proof (cases k)
    case 0
    then show ?thesis by simp
  next
    case (Suc k')
    then show ?thesis
      using "1.IH" [of k'] by simp
  qed
qed (simp_all add: take_Cons')

lemma int16_div_take:
  "j < k \<Longrightarrow> int16_div (take k ws) j = int16_div ws j"
  by (simp add: int16_div_def)

lemma decoded_channels_take:
  assumes "0 < n"
  shows "decoded_channels (take (m * n) ws) n m = decoded_channels ws n m"
proof -
  have idx: "i * n + c < m * n" if "i < m" and "c < n" for i c
  proof -
    have "i * n + c < Suc i * n" using that(2) by simp
    also have "\<dots> \<le> m * n" using that(1) by (intro mult_le_mono1) simp
    finally show ?thesis .
  qed
  show ?thesis
    unfolding decoded_channels_def
    by (intro map_cong refl) (simp add: idx int16_div_take)
qed

lemma frame_index_less:
  fixes i c m n :: nat
  assumes "i < m" and "c < n"
  shows "i * n + c < m * n"
proof -
  have "i * n + c < Suc i * n" using assms(2) by simp
  also have "\<dots> \<le> m * n" using assms(1) by (intro mult_le_mono1) simp
  finally show ?thesis .
qed

lemma nth_decoded_channels:
  "c < n \<Longrightarrow> i < m \<Longrightarrow> decoded_channels ws n m ! c ! i = int16_div ws (i * n + c)"
  by (simp add: decoded_channels_def)

lemma decoded_sample:
  assumes "even (length data)" and "0 < n" and "n \<le> length data div 2"
    and "length data div 2 div n < 2 ^ 32" and "supported_format n rate"
    and "c < n" and "i < length data div 2 div n"
  shows "decoded_channels (int16_pairs data) n (length data div 2 div n) ! c ! i
           = decode_sample_spec (word_cat (data ! (2 * (i * n + c) + 1)) (data ! (2 * (i * n + c))))"
proof -
  define m where "m = length data div 2 div n"
  have "i * n + c < m * n"
    using assms(6,7) by (intro frame_index_less) (simp_all add: m_def)
  also have "m * n \<le> length data div 2"
    by (simp add: m_def)
  finally have k: "i * n + c < length data div 2" .
  then show ?thesis
    using assms(6,7)
    by (simp add: nth_decoded_channels int16_div_def length_int16_pairs nth_int16_pairs
          decode_sample_spec_def)
qed

lemma unat_low_byte: "unat (ucast (w :: 'a::len word) :: byte) = unat w mod 256"
  by (simp add: unsigned_ucast_eq take_bit_eq_mod)

lemma unat_byte_at: "unat (ucast (drop_bit n (w :: 'a::len word)) :: byte) = unat w div 2 ^ n mod 256"
  by (simp only: unat_low_byte unat_drop_bit_eq) (simp add: drop_bit_eq_div)

lemma byte_split: "(x :: nat) mod 256 + 256 * (x div 256) = x"
  by simp

lemma le_value_le16: "le_value (le16 w) = unat w"
proof -
  define x where "x = unat w"
  have "x < 2 ^ 16"
    unfolding x_def using unsigned_less [of w, where 'a = nat] by simp
  then have "x div 256 < 256"
    by simp
  then have "x div 256 mod 256 = x div 256"
    by simp
  then have "x mod 256 + 256 * (x div 256 mod 256) = x"
    by (simp only: byte_split)
  then show ?thesis
    using unat_low_byte [of w] unat_byte_at [of 8 w]
    by (simp add: le16_def x_def)
qed

lemma le_value_le32: "le_value (le32 w) = unat w"
proof -
  define x where "x = unat w"
  define y1 where "y1 = x div 256"
  define y2 where "y2 = y1 div 256"
  define y3 where "y3 = y2 div 256"
  have "x < 2 ^ 32"
    unfolding x_def using unsigned_less [of w, where 'a = nat] by simp
  then have "y3 < 256"
    by (simp add: y3_def y2_def y1_def div_mult2_eq [symmetric] less_mult_imp_div_less)
  then have top: "y3 mod 256 = y3"
    by simp
  have d2: "x div 2 ^ 16 = y2" and d3: "x div 2 ^ 24 = y3"
    by (simp_all add: y3_def y2_def y1_def div_mult2_eq [symmetric])
  have d1: "x div 2 ^ 8 = y1"
    by (simp add: y1_def)
  have "y2 mod 256 + 256 * y3 = y2"
    unfolding y3_def by (rule byte_split)
  moreover have "y1 mod 256 + 256 * y2 = y1"
    unfolding y2_def by (rule byte_split)
  moreover have "x mod 256 + 256 * y1 = x"
    unfolding y1_def by (rule byte_split)
  ultimately have "x mod 256 + 256 * (y1 mod 256 + 256 * (y2 mod 256 + 256 * (y3 mod 256))) = x"
    by (simp only: top)
  then show ?thesis
    using unat_low_byte [of w] unat_byte_at [of 8 w] unat_byte_at [of 16 w] unat_byte_at [of 24 w]
    unfolding le32_def le_value.simps x_def [symmetric] d1 d2 d3
    by simp
qed

lemma le_value_u16le: "le_value (u16le n) = n mod 2 ^ 16"
  by (simp add: u16le_def le_value_le16 unat_of_nat)

lemma le_value_u32le: "le_value (u32le n) = n mod 2 ^ 32"
  by (simp add: u32le_def le_value_le32 unat_of_nat)

lemma length_u16le: "length (u16le n) = 2" and length_u32le: "length (u32le n) = 4"
  by (simp_all add: u16le_def u32le_def le16_def le32_def)

lemma length_ascii: "length (ascii s) = length s"
  by (simp add: ascii_def)

lemma wav_header_fields:
  fixes nch rate frames :: nat and rest :: "byte list"
  defines "bytes \<equiv> wav_header nch rate frames @ rest"
  shows "take 4 bytes = ascii ''RIFF''"
    and "read_u32 bytes 4 = (36 + frames * nch * 2) mod 2 ^ 32"
    and "take 4 (drop 8 bytes) = ascii ''WAVE''"
    and "take 4 (drop 12 bytes) = ascii ''fmt ''"
    and "read_u32 bytes 16 = 16"
    and "read_u16 bytes 20 = 1"
    and "read_u16 bytes 22 = nch mod 2 ^ 16"
    and "read_u32 bytes 24 = rate mod 2 ^ 32"
    and "read_u32 bytes 28 = rate * nch * 2 mod 2 ^ 32"
    and "read_u16 bytes 32 = nch * 2 mod 2 ^ 16"
    and "read_u16 bytes 34 = 16"
    and "take 4 (drop 36 bytes) = ascii ''data''"
    and "read_u32 bytes 40 = frames * nch * 2 mod 2 ^ 32"
    and "drop 44 bytes = rest"
  unfolding bytes_def wav_header_def read_u32_def read_u16_def
  by (simp_all add: length_u16le length_u32le length_ascii le_value_u16le le_value_u32le)

subsection \<open>Reading the stored samples back\<close>

text \<open>The two bytes at position \<open>44 + 2 * (i * C + c)\<close> of the file, read as a
  little-endian signed integer, are the sample of frame \<open>i\<close> and channel \<open>c\<close>,
  encoded.\<close>

lemma take2_drop_words:
  "k < length ws \<Longrightarrow> take 2 (drop (2 * k) (concat (map le16 ws) @ rest)) = le16 (ws ! k)"
proof (induction ws arbitrary: k)
  case Nil
  then show ?case by simp
next
  case (Cons w ws)
  show ?case
  proof (cases k)
    case 0
    then show ?thesis by (simp add: le16_def)
  next
    case (Suc k')
    with Cons.prems have "k' < length ws" by simp
    from Cons.IH [OF this] show ?thesis
      by (simp add: Suc le16_def)
  qed
qed

lemma frame_bytes_words:
  "concat (map (frame_bytes chs) js) = concat (map le16 (concat (map (frame_words chs) js)))"
  by (induction js) (simp_all add: frame_bytes_def)

lemma twos_complement_16:
  fixes n :: nat and e :: int
  assumes "int n = e mod 65536" and "- 32768 \<le> e" and "e \<le> 32767"
  shows "(if n < 32768 then int n else int n - 65536) = e"
proof (cases "0 \<le> e")
  case True
  then have "e mod 65536 = e"
    using assms(3) by simp
  then have "int n = e"
    using assms(1) by simp
  then show ?thesis
    using assms(3) by auto
next
  case False
  then have "(e + 65536) mod 65536 = e + 65536"
    using assms(2) by (intro mod_pos_pos_trivial) simp_all
  then have "e mod 65536 = e + 65536"
    by simp
  then have "int n = e + 65536"
    using assms(1) by simp
  then show ?thesis
    using False assms(2) by auto
qed

lemma read_s16_le16:
  assumes "take 2 (drop pos bytes) = le16 w"
  shows "read_s16 bytes pos = sint w"
proof -
  define n where "n = unat w"
  have u: "read_u16 bytes pos = n"
    using assms by (simp add: read_u16_def le_value_le16 n_def)
  have "uint w = sint w mod 65536"
    by (simp add: uint_sint take_bit_eq_mod)
  then have m: "int n = sint w mod 65536"
    by (simp add: n_def)
  have "- 32768 \<le> sint w" and "sint w \<le> 32767"
    using sint_ge [of w] sint_lt [of w] by simp_all
  from twos_complement_16 [OF m this] show ?thesis
    unfolding read_s16_def u .
qed

lemma stored_sample:
  assumes "list_all (\<lambda>ch. length ch = buf_length b) (getChannelData b)"
    and "c < numberOfChannels b" and "i < buf_length b"
  shows "read_s16 (wav_header (numberOfChannels b) (sampleRate b) (buf_length b) @ interleaved_pcm16 b)
           (44 + 2 * (i * numberOfChannels b + c))
         = sint (pcm16 (getChannelData b ! c ! i))"
proof -
  define chs where "chs = getChannelData b"
  define n where "n = numberOfChannels b"
  define m where "m = buf_length b"
  define hdr where "hdr = wav_header n (sampleRate b) (buf_length b)"
  define ws where "ws = concat (map (frame_words chs) [0..<m])"
  define k where "k = i * n + c"
  have n: "n = length chs"
    by (simp add: n_def chs_def numberOfChannels_def)
  have cn: "c < n" and im: "i < m"
    using assms(2,3) by (simp_all add: n_def m_def)
  have "length (chs ! c) = m"
    using assms(1) cn by (simp add: list_all_length chs_def m_def n)
  then have get: "f32_get (chs ! c) i = chs ! c ! i"
    using im by (simp add: f32_get_def)
  have lws: "length ws = m * n"
    unfolding ws_def by (rule length_concat_frames) (simp add: length_frame_words n)
  have "k < m * n"
    unfolding k_def using im cn by (rule frame_index_less)
  then have kl: "k < length ws"
    by (simp add: lws)
  have "ws ! k = frame_words chs i ! c"
    unfolding ws_def k_def using im cn
    by (intro nth_concat_frames) (simp_all add: length_frame_words n)
  also have "\<dots> = pcm16 (chs ! c ! i)"
    using cn by (simp add: frame_words_def n get)
  finally have word: "ws ! k = pcm16 (chs ! c ! i)" .
  have pcm: "interleaved_pcm16 b = concat (map le16 ws)"
    by (simp add: interleaved_pcm16_def frame_bytes_words ws_def chs_def m_def)
  have lh: "length hdr = 44"
    by (simp add: hdr_def length_wav_header)
  have "drop (44 + 2 * k) (hdr @ concat (map le16 ws)) = drop (2 * k) (concat (map le16 ws) @ [])"
    by (simp add: lh)
  then have "take 2 (drop (44 + 2 * k) (hdr @ concat (map le16 ws))) = le16 (ws ! k)"
    using take2_drop_words [OF kl, of "[]"] by simp
  then have "read_s16 (hdr @ concat (map le16 ws)) (44 + 2 * k) = sint (ws ! k)"
    by (rule read_s16_le16)
  then have "read_s16 (hdr @ interleaved_pcm16 b) (44 + 2 * k) = sint (pcm16 (chs ! c ! i))"
    unfolding word pcm .
  then show ?thesis
    unfolding hdr_def k_def n_def chs_def .
qed

lemma sint_pcm16:
  "sint (pcm16 v) = (case v of Num x \<Rightarrow> encode_sample_spec x | NaN \<Rightarrow> 0)"
proof (cases v)
  case (Num x)
  have "sint (word_of_int (encode_sample_spec x) :: 16 word) = encode_sample_spec x"
    using encode_sample_spec_range [of x] by (intro sint_word16_of_int) simp_all
  then show ?thesis
    by (simp add: Num pcm16_Num)
next
  case NaN
  then show ?thesis
    by (simp add: pcm16_def)
qed

lemma decodeAudioData_short:
  assumes "even (length data)" and "length data div 2 < n"
  shows "decodeAudioData data rate n = Inl NotSupportedError"
proof -
  have "ToUint32 (of_nat (length data div 2) / of_nat n) = length data div 2 div n"
    using assms(2) by (intro ToUint32_of_nat_div) simp
  then have "ToUint32 (of_nat (length data div 2) / of_nat n) = 0"
    using assms(2) by simp
  then show ?thesis
    using assms
    by (simp add: decodeAudioData_def Int16Array_def createBuffer_def length_int16_pairs Let_def)
qed

lemma supported_fields:
  assumes "supported_format n rate"
  shows "n mod 2 ^ 16 = n" and "rate mod 2 ^ 32 = rate"
    and "rate * n * 2 mod 2 ^ 32 = rate * n * 2" and "n * 2 mod 2 ^ 16 = n * 2"
proof -
  have n: "n \<le> 32" and r: "rate \<le> 768000"
    using assms by (simp_all add: supported_format_def MAX_CHANNELS_def MAX_SAMPLE_RATE_def)
  have "rate * n \<le> 768000 * 32"
    using r n by (rule mult_le_mono)
  then have "rate * n * 2 < 2 ^ 32"
    by (simp add: mult.commute)
  then show "rate * n * 2 mod 2 ^ 32 = rate * n * 2"
    by (rule mod_less)
  show "n mod 2 ^ 16 = n" and "rate mod 2 ^ 32 = rate" and "n * 2 mod 2 ^ 16 = n * 2"
    using n r by simp_all
qed

section \<open>The codec claims\<close>

text \<open>Claim C1, as amended. For every well-formed buffer whose samples are quantized to
  16 bits, encoding the samples with the loop of \<open>createWavFile\<close> and decoding the
  bytes with \<open>decodeAudioData\<close> returns the buffer with every positive sample lowered
  by one step of \<open>1 / 32768\<close> and every other sample unchanged. The round trip is
  exact if and only if no sample is positive.\<close>

theorem pcm16_round_trip_quantized:
  assumes "audio_buffer_ok b" and "buffer_quantized16 b"
  shows "pcm16_round_trip b
           = Some (Inr (b\<lparr>getChannelData := map (map lower_positive) (getChannelData b)\<rparr>)) \<and>
         (pcm16_round_trip b = Some (Inr b)
            \<longleftrightarrow> list_all (list_all nonpositive) (getChannelData b))"
proof -
  have rt: "pcm16_round_trip b
           = Some (Inr (b\<lparr>getChannelData := map (map lower_positive) (getChannelData b)\<rparr>))"
    using assms by (rule round_trip_quantized)
  have "v \<noteq> NaN" if "ch \<in> set (getChannelData b)" and "v \<in> set ch" for ch v
  proof -
    have "quantized16 v"
      using that assms(2) by (auto simp: buffer_quantized16_def list_all_iff)
    then show ?thesis
      by (auto simp: quantized16_def)
  qed
  then have "list_all (list_all (\<lambda>v. lower_positive v = v)) (getChannelData b)
               \<longleftrightarrow> list_all (list_all nonpositive) (getChannelData b)"
    by (auto simp: list_all_iff lower_positive_fixed)
  moreover have "b\<lparr>getChannelData := xs\<rparr> = b \<longleftrightarrow> xs = getChannelData b" for xs
    by (cases b) auto
  ultimately show ?thesis
    using rt by (simp add: map_map_fixed)
qed

text \<open>A buffer of two channels without positive samples comes back unchanged.\<close>

theorem pcm16_round_trip_quantized_witness:
  "audio_buffer_ok \<lparr>sampleRate = 24000, buf_length = 2,
                     getChannelData = [[Num (- 1), Num 0], [Num (- 1 / 2), Num (- 1 / 32768)]]\<rparr> \<and>
   buffer_quantized16 \<lparr>sampleRate = 24000, buf_length = 2,
                     getChannelData = [[Num (- 1), Num 0], [Num (- 1 / 2), Num (- 1 / 32768)]]\<rparr> \<and>
   pcm16_round_trip \<lparr>sampleRate = 24000, buf_length = 2,
                     getChannelData = [[Num (- 1), Num 0], [Num (- 1 / 2), Num (- 1 / 32768)]]\<rparr>
     = Some (Inr \<lparr>sampleRate = 24000, buf_length = 2,
                     getChannelData = [[Num (- 1), Num 0], [Num (- 1 / 2), Num (- 1 / 32768)]]\<rparr>)"
  using pcm16_round_trip_quantized
          [of "\<lparr>sampleRate = 24000, buf_length = 2,
                getChannelData = [[Num (- 1), Num 0], [Num (- 1 / 2), Num (- 1 / 32768)]]\<rparr>"]
  by (simp add: audio_buffer_ok_def supported_format_def MAX_CHANNELS_def MIN_SAMPLE_RATE_def
        MAX_SAMPLE_RATE_def buffer_quantized16_def quantized16_def)

text \<open>Claim C1 as stated fails: the quantized sample \<open>1 / 32768\<close> is scaled by
  32767, truncated to the integer 0, and decoded as 0.\<close>

theorem pcm16_round_trip_loses_positive_step:
  "audio_buffer_ok \<lparr>sampleRate = 24000, buf_length = 1, getChannelData = [[Num (1 / 32768)]]\<rparr> \<and>
   buffer_quantized16 \<lparr>sampleRate = 24000, buf_length = 1, getChannelData = [[Num (1 / 32768)]]\<rparr> \<and>
   pcm16_round_trip \<lparr>sampleRate = 24000, buf_length = 1, getChannelData = [[Num (1 / 32768)]]\<rparr>
     = Some (Inr \<lparr>sampleRate = 24000, buf_length = 1, getChannelData = [[Num 0]]\<rparr>) \<and>
   pcm16_round_trip \<lparr>sampleRate = 24000, buf_length = 1, getChannelData = [[Num (1 / 32768)]]\<rparr>
     \<noteq> Some (Inr \<lparr>sampleRate = 24000, buf_length = 1, getChannelData = [[Num (1 / 32768)]]\<rparr>)"
  using round_trip_quantized
          [of "\<lparr>sampleRate = 24000, buf_length = 1, getChannelData = [[Num (1 / 32768)]]\<rparr>"]
  by (simp add: audio_buffer_ok_def supported_format_def MAX_CHANNELS_def MIN_SAMPLE_RATE_def
        MAX_SAMPLE_RATE_def buffer_quantized16_def quantized16_def)

text \<open>Claim C2, as amended. For a byte buffer of even length, a channel count and a
  sample rate that the platform supports, and a frame count below \<open>2^32\<close>: when the
  bytes hold at least one whole frame, \<open>decodeAudioData\<close> returns a buffer of
  \<open>floor (int16 count / channel count)\<close> frames in every channel, and the buffer is the
  one decoded from the bytes of the whole frames alone, so the integers of a trailing
  partial frame are dropped; when the bytes hold fewer integers than there are channels,
  \<open>decodeAudioData\<close> throws NotSupportedError and no buffer is produced.\<close>

theorem decode_truncates_partial_frame:
  assumes "even (length data)" and "supported_format n rate"
    and "length data div 2 div n < 2 ^ 32"
  shows "(n \<le> length data div 2 \<longrightarrow>
           (\<exists>buf. decodeAudioData data rate n = Inr buf \<and>
              buf_length buf = length data div 2 div n \<and>
              numberOfChannels buf = n \<and>
              list_all (\<lambda>ch. length ch = length data div 2 div n) (getChannelData buf) \<and>
              decodeAudioData (take (2 * (length data div 2 div n * n)) data) rate n = Inr buf)) \<and>
         (length data div 2 < n \<longrightarrow> decodeAudioData data rate n = Inl NotSupportedError)"
proof (intro conjI impI)
  assume short: "length data div 2 < n"
  show "decodeAudioData data rate n = Inl NotSupportedError"
    using assms(1) short by (rule decodeAudioData_short)
next
  assume frame: "n \<le> length data div 2"
  have n_pos: "0 < n"
    using assms(2) by (simp add: supported_format_def)
  define m where "m = length data div 2 div n"
  define data' where "data' = take (2 * (m * n)) data"
  have whole: "m * n \<le> length data div 2"
    by (simp add: m_def)
  then have "2 * (m * n) \<le> length data"
    using assms(1) by auto
  then have len': "length data' = 2 * (m * n)"
    by (simp add: data'_def)
  have m_pos: "0 < m"
    using n_pos frame by (simp add: m_def div_greater_zero_iff)
  have frames': "length data' div 2 div n = m" and half': "length data' div 2 = m * n"
    using n_pos by (simp_all add: len')
  have "n \<le> m * n"
    using m_pos by simp
  then have "decodeAudioData data' rate n
          = Inr \<lparr>sampleRate = rate, buf_length = m,
                 getChannelData = decoded_channels (int16_pairs data') n m\<rparr>"
    using decodeAudioData_eq [of data' n rate] n_pos assms(2,3)
    by (simp add: frames' half' len' flip: m_def)
  moreover have "decoded_channels (int16_pairs data') n m = decoded_channels (int16_pairs data) n m"
    using decoded_channels_take [OF n_pos, of m "int16_pairs data"]
    by (simp add: data'_def int16_pairs_take)
  moreover have "decodeAudioData data rate n
          = Inr \<lparr>sampleRate = rate, buf_length = m,
                 getChannelData = decoded_channels (int16_pairs data) n m\<rparr>"
    using decodeAudioData_eq [OF assms(1) n_pos frame assms(3,2)] by (simp add: m_def)
  ultimately show "\<exists>buf. decodeAudioData data rate n = Inr buf \<and>
              buf_length buf = length data div 2 div n \<and>
              numberOfChannels buf = n \<and>
              list_all (\<lambda>ch. length ch = length data div 2 div n) (getChannelData buf) \<and>
              decodeAudioData (take (2 * (length data div 2 div n * n)) data) rate n = Inr buf"
    by (simp add: numberOfChannels_def decoded_channels_def list_all_iff flip: m_def data'_def)
qed

text \<open>Three integers for two channels: one frame, and the third integer is dropped.
  Four integers for five channels: no buffer.\<close>

theorem decode_truncates_partial_frame_witness:
  "even (length [1, 0, 2, 0, 3, 0 :: byte]) \<and> supported_format 2 24000 \<and>
   length [1, 0, 2, 0, 3, 0 :: byte] div 2 div 2 < (2 :: nat) ^ 32 \<and>
   2 \<le> length [1, 0, 2, 0, 3, 0 :: byte] div 2 \<and>
   length [1, 0, 2, 0, 3, 0 :: byte] div 2 mod 2 \<noteq> 0 \<and>
   (\<exists>buf. decodeAudioData [1, 0, 2, 0, 3, 0] 24000 2 = Inr buf \<and>
      buf_length buf = 1 \<and> numberOfChannels buf = 2 \<and>
      list_all (\<lambda>ch. length ch = 1) (getChannelData buf) \<and>
      decodeAudioData [1, 0, 2, 0] 24000 2 = Inr buf) \<and>
   even (length [7, 0, 8, 0, 9, 0, 10, 0 :: byte]) \<and> supported_format 5 48000 \<and>
   length [7, 0, 8, 0, 9, 0, 10, 0 :: byte] div 2 < 5 \<and>
   decodeAudioData [7, 0, 8, 0, 9, 0, 10, 0] 48000 5 = Inl NotSupportedError"
  using decode_truncates_partial_frame [of "[1, 0, 2, 0, 3, 0]" 2 24000]
    decode_truncates_partial_frame [of "[7, 0, 8, 0, 9, 0, 10, 0]" 5 48000]
  by (simp add: supported_format_def MAX_CHANNELS_def MIN_SAMPLE_RATE_def MAX_SAMPLE_RATE_def)

text \<open>Claim C2 as stated fails when the bytes hold less than one frame: with one
  integer for two channels the frame count is \<open>1 / 2\<close>, \<open>createBuffer\<close> is asked
  for a buffer of length 0 and throws, so no buffer of zero frames is produced.\<close>

theorem decode_single_int16_two_channels_rejected:
  "length [0, 0 :: byte] div 2 mod 2 \<noteq> 0 \<and>
   decodeAudioData [0, 0] 24000 2 = Inl NotSupportedError"
  by (simp add: decodeAudioData_def Int16Array_def createBuffer_def ToUint32_def js_trunc_def)


text \<open>Claim C3. For every buffer of the platform, of \<open>frames\<close> frames and \<open>C\<close>
  channels, \<open>createWavFile\<close> returns \<open>44 + frames * C * 2\<close> bytes. Read as
  little-endian fields at the offsets of the canonical header, they are: \<open>RIFF\<close>, the
  total size minus 8, \<open>WAVE\<close>, \<open>fmt\<close>, chunk size 16, format code 1, the channel
  count \<open>C\<close>, the sample rate, the byte rate \<open>rate * C * 2\<close>, the block align
  \<open>C * 2\<close>, 16 bits per sample, \<open>data\<close> and the data size \<open>frames * C * 2\<close>. The
  two size fields are 32 bits wide: they hold the sizes themselves in a file below 4 GiB,
  and the sizes modulo \<open>2^32\<close> in general. The samples follow, interleaved: the two
  bytes at \<open>44 + 2 * (i * C + c)\<close>, read as a little-endian signed integer, are sample
  \<open>i\<close> of channel \<open>c\<close> clamped, scaled and truncated (and 0 for a sample that is
  not a number).\<close>

theorem createWavFile_layout:
  assumes "audio_buffer_ok b"
  shows "\<exists>bytes. createWavFile b = Some (Inr bytes) \<and>
     length bytes = 44 + buf_length b * numberOfChannels b * 2 \<and>
     take 4 bytes = ascii ''RIFF'' \<and>
     read_u32 bytes 4 = (length bytes - 8) mod 2 ^ 32 \<and>
     (length bytes < 2 ^ 32 \<longrightarrow> read_u32 bytes 4 = length bytes - 8) \<and>
     take 4 (drop 8 bytes) = ascii ''WAVE'' \<and>
     take 4 (drop 12 bytes) = ascii ''fmt '' \<and>
     read_u32 bytes 16 = 16 \<and>
     read_u16 bytes 20 = 1 \<and>
     read_u16 bytes 22 = numberOfChannels b \<and>
     read_u32 bytes 24 = sampleRate b \<and>
     read_u32 bytes 28 = sampleRate b * numberOfChannels b * 2 \<and>
     read_u16 bytes 32 = numberOfChannels b * 2 \<and>
     read_u16 bytes 34 = 16 \<and>
     take 4 (drop 36 bytes) = ascii ''data'' \<and>
     read_u32 bytes 40 = buf_length b * numberOfChannels b * 2 mod 2 ^ 32 \<and>
     (length bytes < 2 ^ 32 \<longrightarrow> read_u32 bytes 40 = buf_length b * numberOfChannels b * 2) \<and>
     (\<forall>i<buf_length b. \<forall>c<numberOfChannels b.
        read_s16 bytes (44 + 2 * (i * numberOfChannels b + c))
          = (case getChannelData b ! c ! i of
               Num v \<Rightarrow> encode_sample_spec v
             | NaN \<Rightarrow> 0))"
proof -
  define bytes where
    "bytes = wav_header (numberOfChannels b) (sampleRate b) (buf_length b) @ interleaved_pcm16 b"
  have fmt: "supported_format (numberOfChannels b) (sampleRate b)"
    and lens: "list_all (\<lambda>ch. length ch = buf_length b) (getChannelData b)"
    using assms by (simp_all add: audio_buffer_ok_def numberOfChannels_def)
  have len: "length bytes = 44 + buf_length b * numberOfChannels b * 2"
    by (simp add: bytes_def length_wav_header length_interleaved_pcm16)
  have wav: "createWavFile b = Some (Inr bytes)"
    unfolding bytes_def by (rule createWavFile_eq)
  note hdr = wav_header_fields [of "numberOfChannels b" "sampleRate b" "buf_length b"
                                  "interleaved_pcm16 b", folded bytes_def]
  have riff: "read_u32 bytes 4 = (length bytes - 8) mod 2 ^ 32"
    unfolding len using hdr(2) by simp
  have riff_small: "read_u32 bytes 4 = length bytes - 8" if "length bytes < 2 ^ 32"
    using that unfolding riff by simp
  have data_small: "read_u32 bytes 40 = buf_length b * numberOfChannels b * 2"
    if "length bytes < 2 ^ 32"
    using that unfolding hdr(13) len by simp
  have fields: "read_u16 bytes 22 = numberOfChannels b" "read_u32 bytes 24 = sampleRate b"
    "read_u32 bytes 28 = sampleRate b * numberOfChannels b * 2"
    "read_u16 bytes 32 = numberOfChannels b * 2"
    unfolding hdr(7,8,9,10) by (rule supported_fields [OF fmt])+
  have samples: "read_s16 bytes (44 + 2 * (i * numberOfChannels b + c))
          = (case getChannelData b ! c ! i of Num v \<Rightarrow> encode_sample_spec v | NaN \<Rightarrow> 0)"
    if "i < buf_length b" and "c < numberOfChannels b" for i c
    unfolding bytes_def stored_sample [OF lens that(2,1)] by (rule sint_pcm16)
  show ?thesis
    using wav len hdr(1,3,4,5,6,11,12,13) riff riff_small data_small fields samples
    by blast
qed

text \<open>Two channels of two frames at 24000 Hz: 52 bytes, with the four samples in
  frame order.\<close>

theorem createWavFile_layout_witness:
  "audio_buffer_ok \<lparr>sampleRate = 24000, buf_length = 2,
                     getChannelData = [[Num (1 / 2), Num (- 1 / 2)], [Num 1, NaN]]\<rparr> \<and>
   (\<exists>bytes. createWavFile \<lparr>sampleRate = 24000, buf_length = 2,
                 getChannelData = [[Num (1 / 2), Num (- 1 / 2)], [Num 1, NaN]]\<rparr>
               = Some (Inr bytes) \<and>
      length bytes = 52 \<and> read_u32 bytes 4 = 44 \<and> read_u16 bytes 22 = 2 \<and>
      read_u32 bytes 24 = 24000 \<and> read_u32 bytes 28 = 96000 \<and> read_u16 bytes 32 = 4 \<and>
      read_u32 bytes 40 = 8 \<and>
      read_s16 bytes 44 = 16383 \<and> read_s16 bytes 46 = 32767 \<and>
      read_s16 bytes 48 = - 16384 \<and> read_s16 bytes 50 = 0)"
proof -
  define b where "b = \<lparr>sampleRate = 24000, buf_length = 2,
                        getChannelData = [[Num (1 / 2), Num (- 1 / 2)], [Num 1, NaN]]\<rparr>"
  have ok: "audio_buffer_ok b"
    by (simp add: b_def audio_buffer_ok_def supported_format_def MAX_CHANNELS_def
        MIN_SAMPLE_RATE_def MAX_SAMPLE_RATE_def)
  have enc: "encode_sample_spec (1 / 2) = 16383" "encode_sample_spec (- (1 / 2)) = - 16384"
    "encode_sample_spec 1 = 32767"
    using encode_quantized [of 16384] encode_quantized [of "- 16384"]
    by (simp_all add: encode_sample_spec_def truncate_towards_zero_def)
  have c2: "numberOfChannels b = 2" and f2: "buf_length b = 2"
    by (simp_all add: b_def numberOfChannels_def)
  from createWavFile_layout [OF ok] obtain bytes where
    wav: "createWavFile b = Some (Inr bytes)" and len: "length bytes = 52"
    and small: "length bytes < 2 ^ 32 \<longrightarrow> read_u32 bytes 4 = length bytes - 8"
    and small': "length bytes < 2 ^ 32 \<longrightarrow> read_u32 bytes 40 = 8"
    and fields: "read_u16 bytes 22 = 2" "read_u32 bytes 24 = 24000" "read_u32 bytes 28 = 96000"
      "read_u16 bytes 32 = 4"
    and samples: "\<forall>i<2. \<forall>c<2. read_s16 bytes (44 + 2 * (i * 2 + c))
          = (case getChannelData b ! c ! i of Num v \<Rightarrow> encode_sample_spec v | NaN \<Rightarrow> 0)"
    unfolding c2 f2 by (auto simp: b_def)
  have "read_s16 bytes 44 = 16383" "read_s16 bytes 46 = 32767"
    "read_s16 bytes 48 = - 16384" "read_s16 bytes 50 = 0"
    using samples [rule_format, of 0 0] samples [rule_format, of 0 1]
      samples [rule_format, of 1 0] samples [rule_format, of 1 1]
    by (simp_all add: b_def enc)
  then show ?thesis
    using ok wav len small small' fields unfolding b_def by simp
qed


text \<open>Claim C5. Decoding maps the little-endian signed 16-bit integer at index
  \<open>i * numChannels + c\<close> to sample \<open>i\<close> of channel \<open>c\<close>, as the integer divided by
  32768, a value between \<open>-1\<close> and \<open>32767 / 32768\<close>. Encoding a buffer of the platform
  writes, for sample \<open>i\<close> of channel \<open>c\<close>, at byte \<open>44 + 2 * (i * channels + c)\<close>,
  the little-endian signed 16-bit integer obtained from the sample by clamping to
  \<open>[-1, 1]\<close>, scaling negative values by 32768 and the others by 32767, and truncating
  towards zero.\<close>

theorem pcm16_sample_mapping:
  assumes "even (length data)" and "supported_format n rate" and "n \<le> length data div 2"
    and "length data div 2 div n < 2 ^ 32" and "audio_buffer_ok b"
  shows "(\<exists>buf. decodeAudioData data rate n = Inr buf \<and>
            buf_length buf = length data div 2 div n \<and>
            (\<forall>c<n. \<forall>i<buf_length buf.
               getChannelData buf ! c ! i
                 = decode_sample_spec
                     (word_cat (data ! (2 * (i * n + c) + 1)) (data ! (2 * (i * n + c)))))) \<and>
         (\<forall>s. \<exists>x. decode_sample_spec s = Num x \<and> - 1 \<le> x \<and> x \<le> 32767 / 32768) \<and>
         (\<exists>bytes. createWavFile b = Some (Inr bytes) \<and>
            (\<forall>c<numberOfChannels b. \<forall>i<buf_length b. \<forall>v.
               getChannelData b ! c ! i = Num v \<longrightarrow>
                 read_s16 bytes (44 + 2 * (i * numberOfChannels b + c)) = encode_sample_spec v))"
proof (intro conjI)
  have n_pos: "0 < n"
    using assms(2) by (simp add: supported_format_def)
  note dec = assms(1) n_pos assms(3,4,2)
  show "\<exists>buf. decodeAudioData data rate n = Inr buf \<and>
            buf_length buf = length data div 2 div n \<and>
            (\<forall>c<n. \<forall>i<buf_length buf.
               getChannelData buf ! c ! i
                 = decode_sample_spec
                     (word_cat (data ! (2 * (i * n + c) + 1)) (data ! (2 * (i * n + c)))))"
    using decodeAudioData_eq [OF dec] decoded_sample [OF dec] by simp
  show "\<forall>s. \<exists>x. decode_sample_spec s = Num x \<and> - 1 \<le> x \<and> x \<le> 32767 / 32768"
    using decode_sample_spec_range by blast
  have lens: "list_all (\<lambda>ch. length ch = buf_length b) (getChannelData b)"
    using assms(5) by (simp add: audio_buffer_ok_def)
  have "read_s16 (wav_header (numberOfChannels b) (sampleRate b) (buf_length b)
                    @ interleaved_pcm16 b) (44 + 2 * (i * numberOfChannels b + c))
          = encode_sample_spec v"
    if "c < numberOfChannels b" and "i < buf_length b" and "getChannelData b ! c ! i = Num v"
    for c i v
    unfolding stored_sample [OF lens that(1,2)] sint_pcm16 that(3) by simp
  then show "\<exists>bytes. createWavFile b = Some (Inr bytes) \<and>
            (\<forall>c<numberOfChannels b. \<forall>i<buf_length b. \<forall>v.
               getChannelData b ! c ! i = Num v \<longrightarrow>
                 read_s16 bytes (44 + 2 * (i * numberOfChannels b + c)) = encode_sample_spec v)"
    using createWavFile_eq [of b] by simp
qed

text \<open>Four integers decoded on two channels, among them \<open>-32768\<close> and \<open>32767\<close>; two
  channels of three frames encoded, among them the samples \<open>2\<close> and \<open>-2\<close>, which
  are clamped.\<close>

theorem pcm16_sample_mapping_witness:
  "even (length [0, 128, 255, 127, 1, 0, 254, 255 :: byte]) \<and> supported_format 2 24000 \<and>
   2 \<le> length [0, 128, 255, 127, 1, 0, 254, 255 :: byte] div 2 \<and>
   length [0, 128, 255, 127, 1, 0, 254, 255 :: byte] div 2 div 2 < (2 :: nat) ^ 32 \<and>
   audio_buffer_ok \<lparr>sampleRate = 44100, buf_length = 3,
                     getChannelData = [[Num (1 / 4), Num (- 3 / 4), Num 2],
                                       [Num (- 1 / 4), Num 0, Num (- 2)]]\<rparr> \<and>
   (\<exists>buf. decodeAudioData [0, 128, 255, 127, 1, 0, 254, 255] 24000 2 = Inr buf \<and>
      buf_length buf = 2 \<and>
      getChannelData buf ! 0 ! 0 = Num (- 1) \<and>
      getChannelData buf ! 1 ! 0 = Num (32767 / 32768) \<and>
      getChannelData buf ! 0 ! 1 = Num (1 / 32768) \<and>
      getChannelData buf ! 1 ! 1 = Num (- 1 / 16384)) \<and>
   (\<exists>bytes. createWavFile \<lparr>sampleRate = 44100, buf_length = 3,
                 getChannelData = [[Num (1 / 4), Num (- 3 / 4), Num 2],
                                   [Num (- 1 / 4), Num 0, Num (- 2)]]\<rparr> = Some (Inr bytes) \<and>
      read_s16 bytes 44 = 8191 \<and> read_s16 bytes 46 = - 8192 \<and>
      read_s16 bytes 48 = - 24576 \<and> read_s16 bytes 50 = 0 \<and>
      read_s16 bytes 52 = 32767 \<and> read_s16 bytes 54 = - 32768)"
proof -
  define data :: "byte list" where "data = [0, 128, 255, 127, 1, 0, 254, 255]"
  define b where "b = \<lparr>sampleRate = 44100, buf_length = 3,
                        getChannelData = [[Num (1 / 4), Num (- 3 / 4), Num 2],
                                          [Num (- 1 / 4), Num 0, Num (- 2)]]\<rparr>"
  have fmt: "supported_format 2 24000"
    by (simp add: supported_format_def MAX_CHANNELS_def MIN_SAMPLE_RATE_def MAX_SAMPLE_RATE_def)
  have ok: "audio_buffer_ok b"
    by (simp add: b_def audio_buffer_ok_def supported_format_def MAX_CHANNELS_def
        MIN_SAMPLE_RATE_def MAX_SAMPLE_RATE_def)
  have pre: "even (length data)" "2 \<le> length data div 2" "length data div 2 div 2 < (2 :: nat) ^ 32"
    by (simp_all add: data_def)
  have enc: "encode_sample_spec (1 / 4) = 8191" "encode_sample_spec (- (1 / 4)) = - 8192"
    "encode_sample_spec (- (3 / 4)) = - 24576" "encode_sample_spec 0 = 0"
    "encode_sample_spec 2 = 32767" "encode_sample_spec (- 2) = - 32768"
    using encode_quantized [of 8192] encode_quantized [of "- 8192"] encode_quantized [of "- 24576"]
    by (simp_all add: encode_sample_spec_def truncate_towards_zero_def)
  have dec: "decode_sample_spec (word_cat (128 :: byte) (0 :: byte)) = Num (- 1)"
    "decode_sample_spec (word_cat (127 :: byte) (255 :: byte)) = Num (32767 / 32768)"
    "decode_sample_spec 1 = Num (1 / 32768)"
    "decode_sample_spec (word_cat (255 :: byte) (254 :: byte)) = Num (- 1 / 16384)"
    by (simp_all add: decode_sample_spec_def word_cat_eq)
  have c2: "numberOfChannels b = 2" and f3: "buf_length b = 3"
    by (simp_all add: b_def numberOfChannels_def)
  from pcm16_sample_mapping [OF pre(1) fmt pre(2,3) ok] obtain buf bytes where
    buf: "decodeAudioData data 24000 2 = Inr buf" "buf_length buf = 2"
    and decoded: "\<forall>c<2. \<forall>i<2. getChannelData buf ! c ! i
           = decode_sample_spec (word_cat (data ! (2 * (i * 2 + c) + 1)) (data ! (2 * (i * 2 + c))))"
    and wav: "createWavFile b = Some (Inr bytes)"
    and samples: "\<forall>c<2. \<forall>i<3. \<forall>v. getChannelData b ! c ! i = Num v \<longrightarrow>
           read_s16 bytes (44 + 2 * (i * 2 + c)) = encode_sample_spec v"
    unfolding c2 f3 by (auto simp: data_def)
  have channels: "getChannelData buf ! 0 ! 0 = Num (- 1)" "getChannelData buf ! 0 ! 1 = Num (1 / 32768)"
    "getChannelData buf ! 1 ! 0 = Num (32767 / 32768)" "getChannelData buf ! 1 ! 1 = Num (- 1 / 16384)"
    using decoded [rule_format, of 0 0] decoded [rule_format, of 0 1]
      decoded [rule_format, of 1 0] decoded [rule_format, of 1 1]
    by (simp_all add: data_def dec)
  have "read_s16 bytes 44 = 8191" "read_s16 bytes 46 = - 8192"
    "read_s16 bytes 48 = - 24576" "read_s16 bytes 50 = 0"
    "read_s16 bytes 52 = 32767" "read_s16 bytes 54 = - 32768"
    using samples [rule_format, of 0 0 "1 / 4"] samples [rule_format, of 1 0 "- (1 / 4)"]
      samples [rule_format, of 0 1 "- (3 / 4)"] samples [rule_format, of 1 1 0]
      samples [rule_format, of 0 2 2] samples [rule_format, of 1 2 "- 2"]
    by (simp_all add: b_def enc)
  then show ?thesis
    using fmt ok pre buf wav channels unfolding b_def data_def by simp
qed


section \<open>Proofs about the two components\<close>

lemma stop_source_eq: "stop_source st = Inr (released st)"
  by (simp add: released_def stop_source_def split: option.splits sum.splits)

lemma released_fields:
  "sourceNodeRef (released st) = None"
  "isPlaying (released st) = isPlaying st"
  "isLoading (released st) = isLoading st"
  "error (released st) = error st"
  "calls (released st) = calls st"
  "script_text (released st) = script_text st"
  "selectedVoiceName (released st) = selectedVoiceName st"
  "hasApiKey (released st) = hasApiKey st"
  "env_API_KEY (released st) = env_API_KEY st"
  "audioContextRef (released st) = audioContextRef st"
  "length (sources (released st)) = length (sources st)"
  "component.more (released st) = component.more st"
  by (simp_all add: released_def stop_source_def split: option.splits sum.splits)

lemma released_no_source: "sourceNodeRef st = None \<Longrightarrow> released st = st"
  by (simp add: released_def stop_source_def)

lemma released_idem: "released (released st) = released st"
  by (rule released_no_source) (rule released_fields)

lemma trim_ws_only:
  assumes "\<forall>c\<in>set s. is_ws c"
  shows "trim s = []"
proof -
  have drop: "dropWhile is_ws s = []"
    using assms by (simp only: dropWhile_eq_Nil_conv)
  show ?thesis
    unfolding trim_def drop by simp
qed

lemma wordCount_trim_empty: "trim s = [] \<Longrightarrow> wordCount s = 0"
  by (simp add: wordCount_def split_ws_def)

lemma dropWhile_rev_last: "s \<noteq> [] \<Longrightarrow> \<not> P (last s) \<Longrightarrow> dropWhile P (rev s) = rev s"
  by (cases s rule: rev_cases) simp_all

lemma trim_id: "s \<noteq> [] \<Longrightarrow> \<not> is_ws (hd s) \<Longrightarrow> \<not> is_ws (last s) \<Longrightarrow> trim s = s"
proof -
  assume s: "s \<noteq> []" and h: "\<not> is_ws (hd s)" and l: "\<not> is_ws (last s)"
  have "dropWhile is_ws s = s"
    using s h by (cases s) simp_all
  then show ?thesis
    using s l by (simp add: trim_def dropWhile_rev_last)
qed

lemma not_ws_w: "\<not> is_ws 119" and ws_space: "is_ws 32"
  by (simp_all add: is_ws_def)

lemma word_script_ends: "word_script k \<noteq> [] \<and> hd (word_script k) = 119 \<and> last (word_script k) = 119"
  by (induction k) simp_all

lemma trim_word_script: "trim (word_script k) = word_script k"
  using word_script_ends [of k] by (intro trim_id) (simp_all add: not_ws_w)

lemma dropWhile_word_script: "dropWhile is_ws (word_script k) = word_script k"
  by (cases k) (simp_all add: not_ws_w)

lemma split_word_script:
  "split_ws_from piece (word_script k) = (piece @ [119]) # replicate k [119]"
  by (induction k arbitrary: piece) (simp_all add: not_ws_w ws_space dropWhile_word_script)

lemma wordCount_word_script: "wordCount (word_script k) = Suc k"
  by (simp add: wordCount_def split_ws_def trim_word_script split_word_script)

lemma tts_stopAudio_eq:
  "tts_stopAudio e st =
     Inr ((if e = Gemini then released st else st\<lparr>speechPending := False\<rparr>)\<lparr>isPlaying := False\<rparr>)"
  by (simp add: tts_stopAudio_def stop_source_eq)

lemma released_preview_fields:
  "isMounted (released st) = isMounted st"
  by (simp_all add: released_def stop_source_def split: option.splits sum.splits)

lemma released_tts_fields:
  "engine (released st) = engine st"
  "generatedAudio (released st) = generatedAudio st"
  "speechPending (released st) = speechPending st"
  "utteranceSupported (released st) = utteranceSupported st"
  "systemVoices (released st) = systemVoices st"
  "selectedSystemVoiceURI (released st) = selectedSystemVoiceURI st"
  by (simp_all add: released_def stop_source_def split: option.splits sum.splits)

lemma word_script_not_empty: "word_script k \<noteq> []"
  by (cases k) simp_all

lemma preview_stopAudio_eq:
  "preview_stopAudio st =
     Inr (if isMounted st then (released st)\<lparr>isPlaying := False\<rparr> else released st)"
  by (simp add: preview_stopAudio_def stop_source_eq released_preview_fields)

lemma word_count_positive: "0 < wordCount s \<Longrightarrow> trim s \<noteq> []"
  using wordCount_trim_empty [of s] by auto

lemma tts_initial_fields:
  "script_text (tts_initial s k) = s" "hasApiKey (tts_initial s k) = k"
  "env_API_KEY (tts_initial s k) = False" "engine (tts_initial s k) = Gemini"
  "isLoading (tts_initial s k) = False" "isPlaying (tts_initial s k) = False"
  "calls (tts_initial s k) = []" "selectedVoiceName (tts_initial s k) = []"
  "sourceNodeRef (tts_initial s k) = None" "error (tts_initial s k) = None"
  "generatedAudio (tts_initial s k) = None"
  by (simp_all add: tts_initial_def)

lemma trim_w: "trim [119] = [119]" and wordCount_w: "wordCount [119] = 1"
  using trim_word_script [of 0] wordCount_word_script [of 0] by simp_all

lemma decode_two_zero_bytes:
  "decodeAudioData [0, 0] 24000 1
     = Inr \<lparr>sampleRate = 24000, buf_length = 1, getChannelData = [[Num 0]]\<rparr>"
proof -
  have "word_cat (0 :: byte) (0 :: byte) = (0 :: 16 word)"
    by (simp add: word_cat_eq)
  then show ?thesis
    using decodeAudioData_eq [of "[0, 0]" 1 24000]
    by (simp add: decoded_channels_def int16_div_def supported_format_def MAX_CHANNELS_def
          MIN_SAMPLE_RATE_def MAX_SAMPLE_RATE_def)
qed

lemma preview_response_after_teardown:
  assumes "\<not> isMounted st"
  shows "handlePlay_resume r st = (st, None)" and "handlePlay_decoded d st = st"
  using assms
  by (simp_all add: handlePlay_resume_def handlePlay_decoded_def preview_catch_def
        preview_finally_def split: response.splits sum.splits)

lemma preview_teardown_unmounts:
  "\<exists>st'. preview_teardown st = Inr st' \<and> \<not> isMounted st'"
  by (simp add: preview_teardown_def preview_stopAudio_eq released_preview_fields)

lemma repeatedly_fixed_point: "f y = Inr y \<Longrightarrow> repeatedly n f y = Inr y"
  by (induction n) simp_all

lemma repeatedly_after_first:
  "f x = Inr y \<Longrightarrow> f y = Inr y \<Longrightarrow> repeatedly (Suc n) f x = Inr y"
  by (simp add: repeatedly_fixed_point)

lemma tts_stopAudio_again:
  "tts_stopAudio e st = Inr st' \<Longrightarrow> tts_stopAudio e st' = Inr st'"
  by (cases e) (auto simp: tts_stopAudio_eq released_no_source released_fields)

lemma preview_stopAudio_again:
  "preview_stopAudio st = Inr st' \<Longrightarrow> preview_stopAudio st' = Inr st'"
  by (cases "isMounted st")
     (auto simp: preview_stopAudio_eq released_no_source released_fields released_preview_fields)

lemma preview_source_onended_unmounted:
  "\<not> isMounted st \<Longrightarrow> isPlaying (preview_source_onended i st) = isPlaying st"
  by (simp add: preview_source_onended_def Let_def)

lemma play_toggle_stops_selected_engine:
  "(isPlaying p \<and> \<not> isLoading p \<and> isMounted p \<longrightarrow>
      handlePlay p = Inr ((released p)\<lparr>isPlaying := False\<rparr>, Done)) \<and>
   (player_visible st \<and> isPlaying st \<longrightarrow>
      click_play_toggle st =
        Inr ((if engine st = Gemini then released st else st\<lparr>speechPending := False\<rparr>)
               \<lparr>isPlaying := False\<rparr>, Done))"
  by (simp add: handlePlay_def click_play_toggle_def preview_stopAudio_eq tts_stopAudio_eq)

section \<open>The claims about the two components\<close>

text \<open>Claim C4. A script of exactly 20000 words passes the word limit, whatever the
  state: \<open>handleGenerate\<close> does not answer it with the word-limit message. It goes on
  to the backend that the checks after the word limit leave open: \<open>handleGenerate\<close>
  hands the script to the platform speech engine when the system engine is selected (and
  supported), and sends it to the network model when the AI engine is selected and a key
  is present; \<open>handlePlay\<close>, which checks \<open>isLoading\<close> and \<open>isPlaying\<close> first, sends
  it when it is neither loading nor playing and a key is present. With more than 20000
  words \<open>handleGenerate\<close> changes nothing but the error message, which becomes the
  word-limit message, and makes no backend call, in every state; \<open>handlePlay\<close> does
  the same whenever it is neither loading nor playing.\<close>

theorem word_limit_boundary:
  "(wordCount (script_text st) = MAX_WORDS \<longrightarrow>
      (\<exists>st' k. handleGenerate st = Inr (st', k) \<and>
         error st' \<noteq> Some ''max limit is 20k words'') \<and>
      (engine st = System \<and> utteranceSupported st \<longrightarrow>
         (\<exists>st'. handleGenerate st = Inr (st', Done) \<and> error st' = None \<and>
            calls st' = calls st @ [Speak (script_text st)
                          (find (\<lambda>v. v = selectedSystemVoiceURI st) (systemVoices st))])) \<and>
      (engine st = Gemini \<and> (env_API_KEY st \<or> hasApiKey st) \<longrightarrow>
         (\<exists>st'. handleGenerate st = Inr (st', AwaitGenerateContent) \<and>
            isLoading st' \<and> error st' = None \<and>
            calls st' = calls st @ [GenerateContent (script_text st) (selectedVoiceName st)]))) \<and>
   (wordCount (script_text p) = MAX_WORDS \<and> \<not> isLoading p \<and> \<not> isPlaying p \<and>
      (env_API_KEY p \<or> hasApiKey p) \<longrightarrow>
      handlePlay p =
        Inr (p\<lparr>isLoading := True, error := None,
               calls := calls p @ [GenerateContent (script_text p) (selectedVoiceName p)]\<rparr>,
             AwaitGenerateContent)) \<and>
   (MAX_WORDS < wordCount (script_text st) \<longrightarrow>
      handleGenerate st = Inr (st\<lparr>error := Some ''max limit is 20k words''\<rparr>, Done)) \<and>
   (MAX_WORDS < wordCount (script_text p) \<and> \<not> isLoading p \<and> \<not> isPlaying p \<longrightarrow>
      handlePlay p = Inr (p\<lparr>error := Some ''max limit is 20k words''\<rparr>, Done))"
proof (intro conjI impI)
  assume "wordCount (script_text st) = MAX_WORDS"
  then have ok: "trim (script_text st) \<noteq> []" "\<not> MAX_WORDS < wordCount (script_text st)"
    using word_count_positive [of "script_text st"] by (simp_all add: MAX_WORDS_def)
  show "\<exists>st' k. handleGenerate st = Inr (st', k) \<and>
         error st' \<noteq> Some ''max limit is 20k words''"
    using ok by (cases "engine st")
      (auto simp: handleGenerate_def tts_stopAudio_eq speak_system_def released_fields)
  {
    assume "engine st = System \<and> utteranceSupported st"
    then show "\<exists>st'. handleGenerate st = Inr (st', Done) \<and> error st' = None \<and>
            calls st' = calls st @ [Speak (script_text st)
                          (find (\<lambda>v. v = selectedSystemVoiceURI st) (systemVoices st))]"
      using ok by (simp add: handleGenerate_def tts_stopAudio_eq speak_system_def)
  }
  {
    assume "engine st = Gemini \<and> (env_API_KEY st \<or> hasApiKey st)"
    then show "\<exists>st'. handleGenerate st = Inr (st', AwaitGenerateContent) \<and>
            isLoading st' \<and> error st' = None \<and>
            calls st' = calls st @ [GenerateContent (script_text st) (selectedVoiceName st)]"
      using ok by (auto simp: handleGenerate_def tts_stopAudio_eq released_fields)
  }
next
  assume "wordCount (script_text p) = MAX_WORDS \<and> \<not> isLoading p \<and> \<not> isPlaying p \<and>
      (env_API_KEY p \<or> hasApiKey p)"
  then show "handlePlay p =
        Inr (p\<lparr>isLoading := True, error := None,
               calls := calls p @ [GenerateContent (script_text p) (selectedVoiceName p)]\<rparr>,
             AwaitGenerateContent)"
    by (auto simp: handlePlay_def)
next
  assume over: "MAX_WORDS < wordCount (script_text st)"
  then have "trim (script_text st) \<noteq> []"
    using word_count_positive [of "script_text st"] by simp
  with over show "handleGenerate st = Inr (st\<lparr>error := Some ''max limit is 20k words''\<rparr>, Done)"
    by (simp add: handleGenerate_def)
next
  assume "MAX_WORDS < wordCount (script_text p) \<and> \<not> isLoading p \<and> \<not> isPlaying p"
  then show "handlePlay p = Inr (p\<lparr>error := Some ''max limit is 20k words''\<rparr>, Done)"
    by (simp add: handlePlay_def)
qed

text \<open>Scripts of 20000 words, with the AI engine and a key, with the system engine,
  and in \<open>AiTtsPreview\<close>; scripts of 20001 words.\<close>

theorem word_limit_boundary_witness:
  "wordCount (word_script 19999) = MAX_WORDS \<and>
   (\<exists>st'. handleGenerate (tts_initial (word_script 19999) True) = Inr (st', AwaitGenerateContent) \<and>
      isLoading st' \<and> error st' = None \<and>
      calls st' = [GenerateContent (word_script 19999) []]) \<and>
   (\<exists>st'. handleGenerate ((tts_initial (word_script 19999) False)\<lparr>engine := System\<rparr>)
             = Inr (st', Done) \<and>
      error st' = None \<and> calls st' = [Speak (word_script 19999) None]) \<and>
   handlePlay (preview_initial (word_script 19999) True)
     = Inr ((preview_initial (word_script 19999) True)
              \<lparr>isLoading := True, error := None,
               calls := [GenerateContent (word_script 19999) []]\<rparr>, AwaitGenerateContent) \<and>
   MAX_WORDS < wordCount (word_script 20000) \<and>
   handleGenerate (tts_initial (word_script 20000) True)
     = Inr ((tts_initial (word_script 20000) True)\<lparr>error := Some ''max limit is 20k words''\<rparr>, Done) \<and>
   handlePlay (preview_initial (word_script 20000) True)
     = Inr ((preview_initial (word_script 20000) True)\<lparr>error := Some ''max limit is 20k words''\<rparr>, Done)"
  using word_limit_boundary [of "tts_initial (word_script 19999) True" "preview_initial (word_script 19999) True"]
    word_limit_boundary [of "(tts_initial (word_script 19999) False)\<lparr>engine := System\<rparr>"
                            "preview_initial (word_script 20000) True"]
    word_limit_boundary [of "tts_initial (word_script 20000) True" "preview_initial (word_script 20000) True"]
  by (simp add: tts_initial_fields wordCount_word_script MAX_WORDS_def preview_initial_def tts_initial_def)

text \<open>Claim C6. While \<open>isLoading\<close> is set, a request to generate is dropped:
  \<open>handlePlay\<close> returns at once and changes nothing, and in \<open>TtsTool\<close> the Generate
  button is disabled, so a click on it does not run \<open>handleGenerate\<close>. In both
  components state, error message and retained buffer stay as they are and no backend
  call is made.\<close>

theorem loading_guard:
  "(isLoading p \<longrightarrow> handlePlay p = Inr (p, Done)) \<and>
   (isLoading st \<longrightarrow> click_generate st = Inr (st, Done))"
  by (simp add: handlePlay_def click_generate_def generate_disabled_def)

text \<open>Both components in a loading state.\<close>

theorem loading_guard_witness:
  "isLoading ((preview_initial [119] True)\<lparr>isLoading := True\<rparr>) \<and>
   handlePlay ((preview_initial [119] True)\<lparr>isLoading := True\<rparr>)
     = Inr ((preview_initial [119] True)\<lparr>isLoading := True\<rparr>, Done) \<and>
   isLoading ((tts_initial [119] True)\<lparr>isLoading := True\<rparr>) \<and>
   click_generate ((tts_initial [119] True)\<lparr>isLoading := True\<rparr>)
     = Inr ((tts_initial [119] True)\<lparr>isLoading := True\<rparr>, Done)"
  using loading_guard [of "(preview_initial [119] True)\<lparr>isLoading := True\<rparr>"
                          "(tts_initial [119] True)\<lparr>isLoading := True\<rparr>"]
  by simp

text \<open>Claim C7 fails in \<open>TtsTool\<close> when the response of the AI engine arrives after
  the user has switched to the system engine. The run: Generate is clicked, the system
  engine is selected while the request is in flight, the response arrives and its audio
  is played, the stop button is clicked. \<open>stopAudio\<close> now cancels the speech engine
  only: \<open>isPlaying\<close> is cleared, but the buffer source is still playing and
  \<open>sourceNodeRef\<close> still holds it.\<close>

theorem tts_toggle_after_engine_switch:
  "click_generate (tts_initial [119] True)
     = Inr ((tts_initial [119] True)\<lparr>isLoading := True, calls := [GenerateContent [119] []]\<rparr>,
            AwaitGenerateContent) \<and>
   click_engine System
       ((tts_initial [119] True)\<lparr>isLoading := True, calls := [GenerateContent [119] []]\<rparr>)
     = Inr ((tts_initial [119] True)
              \<lparr>isLoading := True, calls := [GenerateContent [119] []], engine := System\<rparr>) \<and>
   handleGenerate_resume (InlineAudio (Inr [0, 0]))
       ((tts_initial [119] True)
          \<lparr>isLoading := True, calls := [GenerateContent [119] []], engine := System\<rparr>)
     = (tts_initial [119] True)
         \<lparr>isPlaying := True, calls := [GenerateContent [119] []],
          audioContextRef := Some Running, sourceNodeRef := Some 0, sources := [Playing],
          engine := System,
          generatedAudio := Some \<lparr>sampleRate = 24000, buf_length = 1, getChannelData = [[Num 0]]\<rparr>\<rparr> \<and>
   click_play_toggle
       ((tts_initial [119] True)
         \<lparr>isPlaying := True, calls := [GenerateContent [119] []],
          audioContextRef := Some Running, sourceNodeRef := Some 0, sources := [Playing],
          engine := System,
          generatedAudio := Some \<lparr>sampleRate = 24000, buf_length = 1, getChannelData = [[Num 0]]\<rparr>\<rparr>)
     = Inr ((tts_initial [119] True)
         \<lparr>isPlaying := False, calls := [GenerateContent [119] []],
          audioContextRef := Some Running, sourceNodeRef := Some 0, sources := [Playing],
          engine := System,
          generatedAudio := Some \<lparr>sampleRate = 24000, buf_length = 1, getChannelData = [[Num 0]]\<rparr>\<rparr>,
        Done)"
  by (simp add: click_generate_def generate_disabled_def handleGenerate_def click_engine_def
        handleGenerate_resume_def generate_try_def playBuffer_def click_play_toggle_def
        player_visible_def tts_stopAudio_eq released_no_source trim_w wordCount_w MAX_WORDS_def
        decode_two_zero_bytes [unfolded One_nat_def] Let_def tts_initial_def)

text \<open>Claim C8 fails in \<open>TtsTool\<close>, which has no liveness flag. The run: Generate is
  clicked, the component is torn down while the request is in flight, the response
  arrives. The continuation of \<open>handleGenerate\<close> creates a new audio context, keeps
  the buffer, starts a source and sets \<open>isPlaying\<close>. (In \<open>AiTtsPreview\<close> the same
  continuation changes nothing: lemma \<open>preview_response_after_teardown\<close>.)\<close>

theorem tts_response_after_teardown:
  "click_generate (tts_initial [119] True)
     = Inr ((tts_initial [119] True)\<lparr>isLoading := True, calls := [GenerateContent [119] []]\<rparr>,
            AwaitGenerateContent) \<and>
   tts_teardown Gemini
       ((tts_initial [119] True)\<lparr>isLoading := True, calls := [GenerateContent [119] []]\<rparr>)
     = Inr ((tts_initial [119] True)\<lparr>isLoading := True, calls := [GenerateContent [119] []]\<rparr>) \<and>
   handleGenerate_resume (InlineAudio (Inr [0, 0]))
       ((tts_initial [119] True)\<lparr>isLoading := True, calls := [GenerateContent [119] []]\<rparr>)
     = (tts_initial [119] True)
         \<lparr>isPlaying := True, calls := [GenerateContent [119] []],
          audioContextRef := Some Running, sourceNodeRef := Some 0, sources := [Playing],
          generatedAudio := Some \<lparr>sampleRate = 24000, buf_length = 1, getChannelData = [[Num 0]]\<rparr>\<rparr>"
  by (simp add: click_generate_def generate_disabled_def handleGenerate_def tts_teardown_def
        handleGenerate_resume_def generate_try_def playBuffer_def
        tts_stopAudio_eq released_no_source trim_w wordCount_w MAX_WORDS_def
        decode_two_zero_bytes [unfolded One_nat_def] Let_def tts_initial_def)

text \<open>Claim C9, as amended. Neither \<open>stopAudio\<close> raises, in any state: not without
  a source, not with a source that has stopped, and not with one that was never started
  (where \<open>stop()\<close> throws and the exception is caught). \<open>stopAudio\<close> of
  \<open>AiTtsPreview\<close> empties \<open>sourceNodeRef\<close> and, while the component is mounted,
  clears \<open>isPlaying\<close>. \<open>stopAudio\<close> of \<open>TtsTool\<close> clears \<open>isPlaying\<close>; with the
  AI engine it empties \<open>sourceNodeRef\<close>, with the system engine it cancels the speech
  engine. Any number of calls in a row leaves the state of the first call.\<close>

theorem stopAudio_safe_and_idempotent:
  "(\<exists>p'. preview_stopAudio p = Inr p' \<and> sourceNodeRef p' = None \<and>
          (isMounted p \<longrightarrow> \<not> isPlaying p') \<and>
          (\<forall>n. repeatedly (Suc n) preview_stopAudio p = Inr p')) \<and>
   (\<exists>st'. tts_stopAudio e st = Inr st' \<and> \<not> isPlaying st' \<and>
          (e = Gemini \<longrightarrow> sourceNodeRef st' = None) \<and>
          (e = System \<longrightarrow> \<not> speechPending st') \<and>
          (\<forall>n. repeatedly (Suc n) (tts_stopAudio e) st = Inr st'))"
proof (intro conjI)
  obtain p' where p': "preview_stopAudio p = Inr p'"
    by (simp add: preview_stopAudio_eq)
  have again: "preview_stopAudio p' = Inr p'"
    using p' by (rule preview_stopAudio_again)
  have "sourceNodeRef p' = None" and "isMounted p \<longrightarrow> \<not> isPlaying p'"
    using p' by (auto simp: preview_stopAudio_eq released_fields split: if_splits)
  moreover have "\<forall>n. repeatedly (Suc n) preview_stopAudio p = Inr p'"
    using repeatedly_after_first [OF p' again] by blast
  ultimately show "\<exists>p'. preview_stopAudio p = Inr p' \<and> sourceNodeRef p' = None \<and>
          (isMounted p \<longrightarrow> \<not> isPlaying p') \<and>
          (\<forall>n. repeatedly (Suc n) preview_stopAudio p = Inr p')"
    using p' by blast
next
  obtain st' where st': "tts_stopAudio e st = Inr st'"
    by (simp add: tts_stopAudio_eq)
  have again: "tts_stopAudio e st' = Inr st'"
    using st' by (rule tts_stopAudio_again)
  have "\<not> isPlaying st'" and "e = Gemini \<longrightarrow> sourceNodeRef st' = None"
    and "e = System \<longrightarrow> \<not> speechPending st'"
    using st' by (auto simp: tts_stopAudio_eq released_fields)
  moreover have "\<forall>n. repeatedly (Suc n) (tts_stopAudio e) st = Inr st'"
    using repeatedly_after_first [OF st' again] by blast
  ultimately show "\<exists>st'. tts_stopAudio e st = Inr st' \<and> \<not> isPlaying st' \<and>
          (e = Gemini \<longrightarrow> sourceNodeRef st' = None) \<and>
          (e = System \<longrightarrow> \<not> speechPending st') \<and>
          (\<forall>n. repeatedly (Suc n) (tts_stopAudio e) st = Inr st')"
    using st' by blast
qed

text \<open>A source that was never started in \<open>AiTtsPreview\<close>, a stopped one in
  \<open>TtsTool\<close>, three calls each.\<close>

theorem stopAudio_safe_and_idempotent_witness:
  "source_stop Unstarted = Inl InvalidStateError \<and>
   isMounted ((preview_initial [119] True)
                \<lparr>isPlaying := True, sourceNodeRef := Some 0, sources := [Unstarted]\<rparr>) \<and>
   (\<exists>p'. preview_stopAudio ((preview_initial [119] True)
                \<lparr>isPlaying := True, sourceNodeRef := Some 0, sources := [Unstarted]\<rparr>) = Inr p' \<and>
      sourceNodeRef p' = None \<and> \<not> isPlaying p' \<and>
      repeatedly 3 preview_stopAudio ((preview_initial [119] True)
                \<lparr>isPlaying := True, sourceNodeRef := Some 0, sources := [Unstarted]\<rparr>) = Inr p') \<and>
   (\<exists>st'. tts_stopAudio Gemini ((tts_initial [119] True)
                \<lparr>isPlaying := True, sourceNodeRef := Some 0, sources := [Stopped]\<rparr>) = Inr st' \<and>
      sourceNodeRef st' = None \<and> \<not> isPlaying st' \<and>
      repeatedly 3 (tts_stopAudio Gemini) ((tts_initial [119] True)
                \<lparr>isPlaying := True, sourceNodeRef := Some 0, sources := [Stopped]\<rparr>) = Inr st')"
  using stopAudio_safe_and_idempotent
          [of "(preview_initial [119] True)
                 \<lparr>isPlaying := True, sourceNodeRef := Some 0, sources := [Unstarted]\<rparr>"
              Gemini
              "(tts_initial [119] True)
                 \<lparr>isPlaying := True, sourceNodeRef := Some 0, sources := [Stopped]\<rparr>"]
  by (auto simp: preview_initial_def numeral_3_eq_3)

text \<open>Claim C9 as stated fails in the call the cleanup of \<open>AiTtsPreview\<close> makes:
  with the liveness flag cleared, \<open>stopAudio\<close> stops the source and empties the
  ref but leaves \<open>isPlaying\<close> set.\<close>

theorem preview_stopAudio_unmounted_keeps_playing:
  "preview_stopAudio ((preview_initial [119] True)
       \<lparr>isPlaying := True, sourceNodeRef := Some 0, sources := [Playing], isMounted := False\<rparr>)
     = Inr ((preview_initial [119] True)
       \<lparr>isPlaying := True, sourceNodeRef := None, sources := [Stopped], isMounted := False\<rparr>) \<and>
   isPlaying ((preview_initial [119] True)
       \<lparr>isPlaying := True, sourceNodeRef := None, sources := [Stopped], isMounted := False\<rparr>)"
  by (simp add: preview_stopAudio_def stop_source_def preview_initial_def)

text \<open>Claim C10. For a script that is empty or holds white space only,
  \<open>handleGenerate\<close> returns at once with the state unchanged: no error message, no
  loading state, the retained buffer kept, no backend call.\<close>

theorem handleGenerate_blank_script:
  assumes "\<forall>c\<in>set (script_text st). is_ws c"
  shows "handleGenerate st = Inr (st, Done)"
  using assms by (simp add: handleGenerate_def trim_ws_only)

text \<open>A script of a space, a tab, a line feed and a no-break space, and the empty
  script.\<close>

theorem handleGenerate_blank_script_witness:
  "handleGenerate (tts_initial [32, 9, 10, 160] True) = Inr (tts_initial [32, 9, 10, 160] True, Done) \<and>
   handleGenerate (tts_initial [] True) = Inr (tts_initial [] True, Done)"
  using handleGenerate_blank_script [of "tts_initial [32, 9, 10, 160] True"]
    handleGenerate_blank_script [of "tts_initial [] True"]
  by (simp add: tts_initial_def is_ws_def)

end
